theory Spec2Isabelle
  imports Complex_Main "HOL-Library.Sublist"
begin

section \<open>The outside world\<close>

text \<open>
  The program is sequential and talks to a wall clock, to \<open>time.sleep\<close>, to a remote
  service, to the file system and to a user at a dialog. All of it is threaded through one
  record, \<open>world\<close>. Python floats are modelled as exact reals: \<open>0.1\<close> is one tenth, and
  \<open>time.time()\<close> reads \<open>clock\<close>.
\<close>

text \<open>
  The subclasses of \<open>Exception\<close> that the handlers of the program tell apart, and an
  exception with its \<open>str(e)\<close>.
\<close>

datatype error_class = ServiceUnavailable | RequestException | OtherException

datatype error = Error (cls: error_class) (msg: string)

text \<open>What leaves \<open>process_files\<close> uncaught.\<close>

datatype uncaught = KeyboardInterrupt | ValueError

datatype 'a result = Returns 'a | Raises uncaught

text \<open>
  One remote request either raises or yields a response object. Reading the text out of the
  response (\<open>response.text\<close>, \<open>response.choices[0].message.content\<close>,
  \<open>result["choices"][0]["message"]["content"]\<close>) gives the text or raises (\<open>ValueError\<close>,
  \<open>IndexError\<close>, \<open>KeyError\<close>): \<open>Unreadable\<close>.
\<close>

datatype payload = Text string | Unreadable

datatype outcome = Responds payload | Fails error

text \<open>The console lines by which \<open>call_api\<close> reports a failure.\<close>

datatype notice = Retrying nat | OtherError | AllFailed

text \<open>
  The observable effects, in the order they happen: \<open>Sleep d\<close> is \<open>time.sleep(d)\<close>,
  \<open>Attempt n\<close> the start of iteration \<open>n\<close> of a \<open>call_api\<close> loop, \<open>Request\<close> one remote
  request, \<open>Enter\<close> and \<open>Leave\<close> bracket a \<open>call_api\<close> invocation, \<open>Waits f\<close> is a call of
  \<open>RateLimiter.wait\<close> ahead of file \<open>f\<close>, \<open>Starts f\<close> and \<open>Ends f ok\<close> bracket
  \<open>process_file\<close> on \<open>f\<close>, \<open>AskContinue\<close> and \<open>AskRetry\<close> are the two message boxes with the
  user's answer, \<open>ConfigDialog d\<close> the interval dialog opened with default \<open>d\<close>.
\<close>

datatype event =
    Sleep real
  | Attempt nat
  | Request
  | Says notice
  | Enter
  | Leave
  | Waits string
  | Interrupted
  | Starts string
  | Ends string bool
  | AskContinue bool
  | AskRetry "bool option"
  | ConfigDialog real

text \<open>
  What the user leaves in the minutes field of the interval dialog: the default untouched,
  a number of their own, or text that \<open>float()\<close> rejects.
\<close>

datatype entry = Keep | Typed real | Garbage

record dialog_input =
  minutes_entry :: entry
  progress_box :: bool

text \<open>
  \<open>lag\<close>, \<open>remote\<close>, \<open>interrupts\<close>, \<open>continue_answers\<close>, \<open>retry_answers\<close> and \<open>dialogs\<close> are
  scripts, read from the head. \<open>get_prompt\<close> and \<open>format_to_markdown\<close> stand for
  \<open>NovelAnalysisPrompts\<close> (module \<open>prompts.analysis_prompts\<close>, not part of the sources at
  hand); \<open>path_stem p\<close> is \<open>os.path.splitext(os.path.basename(p))[0]\<close> and \<open>path_join\<close> is
  \<open>os.path.join\<close>. These four are parameters: nothing is assumed about them.
\<close>

record world =
  clock :: real
  lag :: "real list"
  trace :: "event list"
  remote :: "outcome list"
  files :: "string \<rightharpoonup> string"
  writable :: "string \<Rightarrow> bool"
  interrupts :: "bool list"
  continue_answers :: "bool list"
  retry_answers :: "bool option list"
  dialogs :: "dialog_input list"
  get_prompt :: "string \<Rightarrow> string \<Rightarrow> string \<Rightarrow> error + string"
  format_to_markdown :: "string \<Rightarrow> error + string"
  path_stem :: "string \<Rightarrow> string"
  path_join :: "string \<Rightarrow> string \<Rightarrow> string"

definition emit :: "event \<Rightarrow> world \<Rightarrow> world" where
  "emit e w = w\<lparr>trace := trace w @ [e]\<rparr>"

text \<open>
  \<open>time.sleep(d)\<close> suspends for at least \<open>d\<close> seconds: the clock moves by \<open>d\<close> plus the
  overshoot scripted for this sleep (the head of \<open>lag\<close>, nothing when the script is used
  up). Every call site passes a positive duration.
\<close>

definition overshoot :: "world \<Rightarrow> real" where
  "overshoot w = (case lag w of [] \<Rightarrow> 0 | l # _ \<Rightarrow> l)"

definition sleep :: "real \<Rightarrow> world \<Rightarrow> world" where
  "sleep d w = w\<lparr>clock := clock w + d + overshoot w, lag := tl (lag w),
                 trace := trace w @ [Sleep d]\<rparr>"

text \<open>
  One remote request takes the next outcome of the script; a script that is used up raises
  like an exhausted mock.
\<close>

definition request :: "world \<Rightarrow> outcome \<times> world" where
  "request w =
     (case remote w of
        [] \<Rightarrow> (Fails (Error OtherException []), emit Request w)
      | r # rs \<Rightarrow> (r, emit Request (w\<lparr>remote := rs\<rparr>)))"

section \<open>rate\_limiter.py\<close>

record RateLimitConfig =
  wait_minutes :: real
  show_progress :: bool

record RateLimiter =
  config :: RateLimitConfig
  last_call_time :: real

text \<open>
  \<open>_show_config_dialog\<close>: the dialog opens with \<open>str(default_minutes)\<close> in the entry and the
  box ticked; on confirmation \<open>float(wait_minutes.get())\<close> is the new interval. An
  untouched entry reads back as the default.
\<close>

definition show_config_dialog :: "real \<Rightarrow> world \<Rightarrow> RateLimitConfig result \<times> world" where
  "show_config_dialog default_minutes w =
     (let d = (case dialogs w of [] \<Rightarrow> \<lparr>minutes_entry = Keep, progress_box = True\<rparr> | x # _ \<Rightarrow> x);
          w' = emit (ConfigDialog default_minutes) (w\<lparr>dialogs := tl (dialogs w)\<rparr>)
      in case minutes_entry d of
           Keep \<Rightarrow> (Returns \<lparr>wait_minutes = default_minutes, show_progress = progress_box d\<rparr>, w')
         | Typed x \<Rightarrow> (Returns \<lparr>wait_minutes = x, show_progress = progress_box d\<rparr>, w')
         | Garbage \<Rightarrow> (Raises ValueError, w'))"

text \<open>\<open>RateLimiter.__init__\<close>: \<open>self.config = config or self._show_config_dialog()\<close>.\<close>

definition RateLimiter_init :: "RateLimitConfig option \<Rightarrow> world \<Rightarrow> RateLimiter result \<times> world" where
  "RateLimiter_init cfg w =
     (case cfg of
        Some c \<Rightarrow> (Returns \<lparr>config = c, last_call_time = 0\<rparr>, w)
      | None \<Rightarrow>
          (case show_config_dialog 1 w of
             (Returns c, w') \<Rightarrow> (Returns \<lparr>config = c, last_call_time = 0\<rparr>, w')
           | (Raises e, w') \<Rightarrow> (Raises e, w')))"

text \<open>
  \<open>update_config(config=None, show_dialog=True, default_minutes=None)\<close>. In
  \<open>default_minutes or self.config.wait_minutes\<close> both \<open>None\<close> and \<open>0.0\<close> are falsy.
\<close>

definition update_config ::
  "RateLimiter \<Rightarrow> RateLimitConfig option \<Rightarrow> bool \<Rightarrow> real option \<Rightarrow> world
     \<Rightarrow> RateLimiter result \<times> world" where
  "update_config self cfg show_dialog default_minutes w =
     (case cfg of
        Some c \<Rightarrow> (Returns (self\<lparr>config := c\<rparr>), w)
      | None \<Rightarrow>
          if show_dialog
          then (let d = (case default_minutes of
                           None \<Rightarrow> wait_minutes (config self)
                         | Some m \<Rightarrow> if m = 0 then wait_minutes (config self) else m)
                in case show_config_dialog d w of
                     (Returns c, w') \<Rightarrow> (Returns (self\<lparr>config := c\<rparr>), w')
                   | (Raises e, w') \<Rightarrow> (Raises e, w'))
          else (Returns self, w))"

text \<open>
  The progress-bar loop of \<open>RateLimiter.wait\<close>:
  \<^verbatim>\<open>while remaining > 0: time.sleep(0.1); pbar.update(0.1); remaining -= 0.1\<close>
\<close>

function progress_loop :: "real \<Rightarrow> world \<Rightarrow> world" where
  "progress_loop remaining w =
     (if remaining > 0 then progress_loop (remaining - 1/10) (sleep (1/10) w) else w)"
  by pat_completeness auto
termination
proof (relation "measure (\<lambda>(remaining, w). nat \<lceil>remaining * 10\<rceil>)")
  show "wf (measure (\<lambda>(remaining, w). nat \<lceil>remaining * 10\<rceil>))" by simp
next
  fix remaining :: real and w :: world
  assume pos: "0 < remaining"
  have "\<lceil>(remaining - 1/10) * 10\<rceil> = \<lceil>remaining * 10\<rceil> - 1"
    by (simp add: algebra_simps ceiling_diff_one)
  moreover have "0 < \<lceil>remaining * 10\<rceil>" using pos by simp
  ultimately show "((remaining - 1/10, sleep (1/10) w), (remaining, w))
      \<in> measure (\<lambda>(remaining, w). nat \<lceil>remaining * 10\<rceil>)"
    by simp
qed

declare progress_loop.simps [simp del]

definition wait :: "RateLimiter \<Rightarrow> world \<Rightarrow> RateLimiter \<times> world" where
  "wait self w =
     (let current_time = clock w;
          elapsed = current_time - last_call_time self;
          wait_seconds = wait_minutes (config self) * 60;
          w' = (if elapsed < wait_seconds
                then (let remaining = wait_seconds - elapsed
                      in if show_progress (config self)
                         then progress_loop remaining w
                         else sleep remaining w)
                else w)
      in (self\<lparr>last_call_time := clock w'\<rparr>, w'))"

definition reset_timer :: "RateLimiter \<Rightarrow> RateLimiter" where
  "reset_timer self = self\<lparr>last_call_time := 0\<rparr>"

section \<open>The provider clients: gemini\_api.py, deepseek\_api.py, kimi\_api.py\<close>

text \<open>The three subclasses of \<open>BaseAPI\<close>; a \<open>GeminiAPI\<close> carries its \<open>model_name\<close>.\<close>

datatype api = GeminiAPI string | KimiAPI | DeepSeekAPI

text \<open>
  \<open>GeminiAPI.call_api\<close>: the loop \<open>for attempt in range(max_retries)\<close>, entered at
  \<open>attempt\<close>. \<open>ServiceUnavailable\<close> is retried after \<open>time.sleep(10 + 5 ** attempt)\<close>; any
  other \<open>Exception\<close> returns \<open>None\<close> at once.
\<close>

function gemini_loop :: "nat \<Rightarrow> nat \<Rightarrow> world \<Rightarrow> string option \<times> world" where
  "gemini_loop max_retries attempt w =
     (if attempt < max_retries
      then (case request (emit (Attempt attempt) w) of
              (Responds p, w1) \<Rightarrow>
                (let w2 = sleep 10 w1
                 in case p of
                      Text s \<Rightarrow> (Some s, w2)
                    | Unreadable \<Rightarrow> (None, emit (Says OtherError) w2))
            | (Fails e, w1) \<Rightarrow>
                if cls e = ServiceUnavailable
                then gemini_loop max_retries (attempt + 1)
                       (sleep (10 + 5 ^ attempt) (emit (Says (Retrying attempt)) w1))
                else (None, emit (Says OtherError) w1))
      else (None, emit (Says AllFailed) w))"
  by pat_completeness auto
termination
  by (relation "measure (\<lambda>(max_retries, attempt, w). max_retries - attempt)") auto

declare gemini_loop.simps [simp del]

definition gemini_call_api :: "string \<Rightarrow> string \<Rightarrow> nat \<Rightarrow> world \<Rightarrow> string option \<times> world" where
  "gemini_call_api text prompt max_retries w = gemini_loop max_retries 0 (sleep 15 w)"

text \<open>\<open>DeepSeekAPI.call_api\<close>: the one handler is \<open>except Exception\<close>, and it retries.\<close>

function deepseek_loop :: "nat \<Rightarrow> nat \<Rightarrow> world \<Rightarrow> string option \<times> world" where
  "deepseek_loop max_retries attempt w =
     (if attempt < max_retries
      then (case request (emit (Attempt attempt) w) of
              (Responds p, w1) \<Rightarrow>
                (let w2 = sleep 10 w1
                 in case p of
                      Text s \<Rightarrow> (Some s, w2)
                    | Unreadable \<Rightarrow>
                        deepseek_loop max_retries (attempt + 1)
                          (sleep (10 + 5 ^ attempt) (emit (Says (Retrying attempt)) w2)))
            | (Fails e, w1) \<Rightarrow>
                deepseek_loop max_retries (attempt + 1)
                  (sleep (10 + 5 ^ attempt) (emit (Says (Retrying attempt)) w1)))
      else (None, emit (Says AllFailed) w))"
  by pat_completeness auto
termination
  by (relation "measure (\<lambda>(max_retries, attempt, w). max_retries - attempt)") auto

declare deepseek_loop.simps [simp del]

definition deepseek_call_api :: "string \<Rightarrow> string \<Rightarrow> nat \<Rightarrow> world \<Rightarrow> string option \<times> world" where
  "deepseek_call_api text prompt max_retries w = deepseek_loop max_retries 0 (sleep 15 w)"

text \<open>
  \<open>KimiAPI.call_api\<close>: two posts per attempt, ten seconds apart; an HTTP error status is
  the \<open>RequestException\<close> of \<open>raise_for_status\<close>. \<open>RequestException\<close> is retried, any other
  \<open>Exception\<close> returns \<open>None\<close> at once.
\<close>

function kimi_loop :: "nat \<Rightarrow> nat \<Rightarrow> world \<Rightarrow> string option \<times> world" where
  "kimi_loop max_retries attempt w =
     (if attempt < max_retries
      then (case request (emit (Attempt attempt) w) of
              (Responds p0, w1) \<Rightarrow>
                (case request (sleep 10 w1) of
                   (Responds p, w2) \<Rightarrow>
                     (let w3 = sleep 10 w2
                      in case p of
                           Text s \<Rightarrow> (Some s, w3)
                         | Unreadable \<Rightarrow> (None, emit (Says OtherError) w3))
                 | (Fails e, w2) \<Rightarrow>
                     if cls e = RequestException
                     then kimi_loop max_retries (attempt + 1)
                            (sleep (10 + 5 ^ attempt) (emit (Says (Retrying attempt)) w2))
                     else (None, emit (Says OtherError) w2))
            | (Fails e, w1) \<Rightarrow>
                if cls e = RequestException
                then kimi_loop max_retries (attempt + 1)
                       (sleep (10 + 5 ^ attempt) (emit (Says (Retrying attempt)) w1))
                else (None, emit (Says OtherError) w1))
      else (None, emit (Says AllFailed) w))"
  by pat_completeness auto
termination
  by (relation "measure (\<lambda>(max_retries, attempt, w). max_retries - attempt)") auto

declare kimi_loop.simps [simp del]

definition kimi_call_api :: "string \<Rightarrow> string \<Rightarrow> nat \<Rightarrow> world \<Rightarrow> string option \<times> world" where
  "kimi_call_api text prompt max_retries w = kimi_loop max_retries 0 (sleep 15 w)"

text \<open>\<open>self.api.call_api(text, prompt, max_retries)\<close>, dispatched on the class of \<open>self.api\<close>.\<close>

definition call_api :: "api \<Rightarrow> string \<Rightarrow> string \<Rightarrow> nat \<Rightarrow> world \<Rightarrow> string option \<times> world" where
  "call_api a text prompt max_retries w =
     (case a of
        GeminiAPI model_name \<Rightarrow> gemini_call_api text prompt max_retries w
      | KimiAPI \<Rightarrow> kimi_call_api text prompt max_retries w
      | DeepSeekAPI \<Rightarrow> deepseek_call_api text prompt max_retries w)"

section \<open>api\_factory.py\<close>

text \<open>\<open>str.lower\<close> on ASCII letters, and the substring test \<open>sub in s\<close>.\<close>

definition lower_char :: "char \<Rightarrow> char" where
  "lower_char c =
     (let n = (of_char c :: nat) in if 65 \<le> n \<and> n \<le> 90 then char_of (n + 32) else c)"

definition lower :: "string \<Rightarrow> string" where
  "lower s = map lower_char s"

fun contains :: "string \<Rightarrow> string \<Rightarrow> bool" where
  "contains sub [] = (sub = [])"
| "contains sub (c # cs) = (prefix sub (c # cs) \<or> contains sub cs)"

text \<open>
  The retry loop of \<open>process_single_file\<close>, \<open>while retry_count < max_retries\<close> with
  \<open>max_retries = 3\<close>. \<open>format_article\<close> is \<open>NovelAnalysisPrompts.get_prompt(title, text,
  prompt_file)\<close> in all three clients; a falsy prompt (\<open>None\<close> or the empty string) is the
  empty string here. \<open>call_api\<close> catches every \<open>Exception\<close> itself, so only
  \<open>format_article\<close> reaches the handler. \<open>None\<close> stands for the pair \<open>(None, None)\<close>.
\<close>

function psf_loop ::
  "api \<Rightarrow> string \<Rightarrow> string \<Rightarrow> string \<Rightarrow> nat \<Rightarrow> world \<Rightarrow> (string \<times> string) option \<times> world" where
  "psf_loop a text title prompt_file retry_count w =
     (if retry_count < 3
      then (case get_prompt w title text prompt_file of
              Inr formatted_text \<Rightarrow>
                if formatted_text = [] then (None, w)
                else (case call_api a text formatted_text 3 (emit Enter w) of
                        (result, w1) \<Rightarrow>
                          (let w2 = emit Leave w1
                           in case result of
                                Some r \<Rightarrow>
                                  if r \<noteq> [] then (Some (title, r), w2)
                                  else psf_loop a text title prompt_file (retry_count + 1) w2
                              | None \<Rightarrow> psf_loop a text title prompt_file (retry_count + 1) w2))
            | Inl api_error \<Rightarrow>
                if contains ''blocked prompt'' (lower (msg api_error)) then (None, w)
                else psf_loop a text title prompt_file (retry_count + 1)
                       (if retry_count < 3 - 1
                        then sleep (real (retry_count + 1) * 60) w else w))
      else (None, w))"
  by pat_completeness auto
termination
  by (relation "measure (\<lambda>(a, text, title, prompt_file, retry_count, w). 3 - retry_count)") auto

declare psf_loop.simps [simp del]

text \<open>\<open>process_single_file\<close>: a file that cannot be read ends in the outer handler.\<close>

definition process_single_file ::
  "api \<Rightarrow> string \<Rightarrow> string \<Rightarrow> world \<Rightarrow> (string \<times> string) option \<times> world" where
  "process_single_file a file_path prompt_file w =
     (case files w file_path of
        None \<Rightarrow> (None, w)
      | Some text \<Rightarrow> psf_loop a text (path_stem w file_path) prompt_file 0 w)"

text \<open>\<open>s.split('-')\<close>.\<close>

fun split_dash :: "string \<Rightarrow> string list" where
  "split_dash [] = [[]]"
| "split_dash (c # cs) =
     (if c = CHR ''-'' then [] # split_dash cs
      else (case split_dash cs of [] \<Rightarrow> [[c]] | x # xs \<Rightarrow> (c # x) # xs))"

text \<open>
  Where \<open>process_file\<close> saves: \<open>None\<close> is the \<open>IndexError\<close> of
  \<open>self.api.model_name.split('-')[1]\<close>.
\<close>

definition save_path_of :: "api \<Rightarrow> string \<Rightarrow> world \<Rightarrow> string option" where
  "save_path_of a base_name w =
     (case a of
        GeminiAPI model_name \<Rightarrow>
          (case split_dash model_name of
             x # model_version # xs \<Rightarrow>
               Some (path_join w (path_join w ''book_2'' ''Gemini'')
                       (base_name @ ''_gemini'' @ model_version @ ''.md''))
           | _ \<Rightarrow> None)
      | KimiAPI \<Rightarrow>
          Some (path_join w (path_join w ''book_2'' ''Kimi'') (base_name @ ''_kimi.md''))
      | DeepSeekAPI \<Rightarrow>
          Some (path_join w (path_join w ''book_2'' ''DeepSeek'') (base_name @ ''_deepseek.md'')))"

text \<open>
  \<open>process_file\<close>: every \<open>Exception\<close> is caught and turned into \<open>(False, None)\<close>.
  \<open>writable\<close> says whether \<open>os.makedirs\<close> and \<open>open(save_path, 'w')\<close> succeed.
\<close>

definition process_file ::
  "api \<Rightarrow> string \<Rightarrow> string \<Rightarrow> world \<Rightarrow> (bool \<times> string option) \<times> world" where
  "process_file a file_path prompt_file w =
     (case process_single_file a file_path prompt_file w of
        (None, w1) \<Rightarrow> ((False, None), w1)
      | (Some (title, result), w1) \<Rightarrow>
          if title = [] \<or> result = [] then ((False, None), w1)
          else (case format_to_markdown w1 result of
                  Inl e \<Rightarrow> ((False, None), w1)
                | Inr md_result \<Rightarrow>
                    (case save_path_of a (path_stem w1 file_path) w1 of
                       None \<Rightarrow> ((False, None), w1)
                     | Some save_path \<Rightarrow>
                         if writable w1 save_path
                         then ((True, Some save_path),
                               w1\<lparr>files := (files w1)(save_path \<mapsto> md_result)\<rparr>)
                         else ((False, None), w1))))"

text \<open>
  \<open>self.rate_limiter.wait(...)\<close> as the orchestrator calls it ahead of \<open>file_path\<close>: the
  user may press Ctrl-C while it runs (the head of \<open>interrupts\<close>), and then \<open>wait\<close> does
  not reach its last line.
\<close>

definition interruptible_wait ::
  "string \<Rightarrow> RateLimiter \<Rightarrow> world \<Rightarrow> unit result \<times> RateLimiter \<times> world" where
  "interruptible_wait file_path rl w =
     (let w0 = emit (Waits file_path) (w\<lparr>interrupts := tl (interrupts w)\<rparr>)
      in case interrupts w of
           True # rest \<Rightarrow> (Raises KeyboardInterrupt, rl, emit Interrupted w0)
         | _ \<Rightarrow> (case wait rl w0 of (rl', w1) \<Rightarrow> (Returns (), rl', w1)))"

text \<open>\<open>messagebox.askyesno\<close> and \<open>messagebox.askyesnocancel\<close>.\<close>

definition askyesno :: "world \<Rightarrow> bool \<times> world" where
  "askyesno w =
     (let answer = (case continue_answers w of [] \<Rightarrow> False | x # _ \<Rightarrow> x)
      in (answer, emit (AskContinue answer) (w\<lparr>continue_answers := tl (continue_answers w)\<rparr>)))"

definition askyesnocancel :: "world \<Rightarrow> bool option \<times> world" where
  "askyesnocancel w =
     (let choice = (case retry_answers w of [] \<Rightarrow> None | x # _ \<Rightarrow> x)
      in (choice, emit (AskRetry choice) (w\<lparr>retry_answers := tl (retry_answers w)\<rparr>)))"

text \<open>
  The loop of \<open>process_files\<close>, \<open>for i, file_path in enumerate(file_paths)\<close>, with its three
  local variables. The only exception a wait can raise is the \<open>KeyboardInterrupt\<close>, which
  the loop answers with \<open>break\<close>.
\<close>

fun main_loop ::
  "api \<Rightarrow> string \<Rightarrow> nat \<Rightarrow> string list \<Rightarrow> RateLimiter \<Rightarrow> string list \<Rightarrow> nat \<Rightarrow> world
     \<Rightarrow> RateLimiter \<times> string list \<times> world" where
  "main_loop a prompt_file i [] rl failed_tasks consecutive_failures w = (rl, failed_tasks, w)"
| "main_loop a prompt_file i (file_path # rest) rl failed_tasks consecutive_failures w =
     (case (if i > 0 then interruptible_wait file_path rl w else (Returns (), rl, w)) of
        (Raises e, rl1, w1) \<Rightarrow> (rl1, failed_tasks, w1)
      | (Returns u, rl1, w1) \<Rightarrow>
          (case process_file a file_path prompt_file (emit (Starts file_path) w1) of
             ((success, saved), w2) \<Rightarrow>
               (let w3 = emit (Ends file_path success) w2
                in if \<not> success
                   then (if consecutive_failures + 1 \<ge> 3
                         then (case askyesno w3 of
                                 (answer, w4) \<Rightarrow>
                                   if \<not> answer then (rl1, failed_tasks @ [file_path], w4)
                                   else main_loop a prompt_file (i + 1) rest rl1
                                          (failed_tasks @ [file_path]) 0 w4)
                         else main_loop a prompt_file (i + 1) rest rl1
                                (failed_tasks @ [file_path]) (consecutive_failures + 1) w3)
                   else main_loop a prompt_file (i + 1) rest
                          (rl1\<lparr>last_call_time := clock w3\<rparr>) failed_tasks 0 w3)))"

text \<open>
  The loop of \<open>retry_failed_tasks\<close>: the wait is not inside a \<open>try\<close>, so a
  \<open>KeyboardInterrupt\<close> leaves the function.
\<close>

fun retry_loop ::
  "api \<Rightarrow> string \<Rightarrow> nat \<Rightarrow> string list \<Rightarrow> RateLimiter \<Rightarrow> world
     \<Rightarrow> unit result \<times> RateLimiter \<times> world" where
  "retry_loop a prompt_file i [] rl w = (Returns (), rl, w)"
| "retry_loop a prompt_file i (file_path # rest) rl w =
     (case (if i > 0 then interruptible_wait file_path rl w else (Returns (), rl, w)) of
        (Raises e, rl1, w1) \<Rightarrow> (Raises e, rl1, w1)
      | (Returns u, rl1, w1) \<Rightarrow>
          (case process_file a file_path prompt_file (emit (Starts file_path) w1) of
             ((success, saved), w2) \<Rightarrow>
               retry_loop a prompt_file (i + 1) rest rl1 (emit (Ends file_path success) w2)))"

text \<open>
  \<open>retry_failed_tasks\<close>; the second component is the list \<open>failed_tasks\<close> as the caller
  finds it afterwards.
\<close>

definition retry_failed_tasks ::
  "api \<Rightarrow> string list \<Rightarrow> string \<Rightarrow> RateLimiter \<Rightarrow> world
     \<Rightarrow> unit result \<times> string list \<times> RateLimiter \<times> world" where
  "retry_failed_tasks a failed_tasks prompt_file rl w =
     (case retry_loop a prompt_file 0 failed_tasks rl w of
        (r, rl', w') \<Rightarrow> (r, failed_tasks, rl', w'))"

text \<open>The end of \<open>process_files\<close>, from \<open>if failed_tasks:\<close> on.\<close>

definition offer_retry ::
  "api \<Rightarrow> string list \<Rightarrow> string \<Rightarrow> RateLimiter \<Rightarrow> world \<Rightarrow> unit result \<times> RateLimiter \<times> world" where
  "offer_retry a failed_tasks prompt_file rl w =
     (if failed_tasks \<noteq> []
      then (case askyesnocancel w of
              (None, w1) \<Rightarrow> (Returns (), rl, w1)
            | (Some choice, w1) \<Rightarrow>
                (case (if \<not> choice
                       then update_config rl None True (Some (wait_minutes (config rl) * 2)) w1
                       else (Returns rl, w1)) of
                   (Raises e, w2) \<Rightarrow> (Raises e, rl, w2)
                 | (Returns rl2, w2) \<Rightarrow>
                     (case retry_failed_tasks a failed_tasks prompt_file rl2 w2 of
                        (r, failed_tasks', rl3, w3) \<Rightarrow> (r, rl3, w3))))
      else (Returns (), rl, w))"

record ArticleAnalyzer =
  api :: "api option"
  rate_limiter :: "RateLimiter option"

definition process_files ::
  "ArticleAnalyzer \<Rightarrow> string list \<Rightarrow> string \<Rightarrow> world \<Rightarrow> unit result \<times> ArticleAnalyzer \<times> world" where
  "process_files self file_paths prompt_file w =
     (case api self of
        None \<Rightarrow> (Returns (), self, w)
      | Some a \<Rightarrow>
          (case (case rate_limiter self of
                   None \<Rightarrow> RateLimiter_init None w
                 | Some rl \<Rightarrow> (Returns rl, w)) of
             (Raises e, w1) \<Rightarrow> (Raises e, self, w1)
           | (Returns rl, w1) \<Rightarrow>
               (case main_loop a prompt_file 0 file_paths (reset_timer rl) [] 0 w1 of
                  (rl1, failed_tasks, w2) \<Rightarrow>
                    (case offer_retry a failed_tasks prompt_file rl1 w2 of
                       (r, rl2, w3) \<Rightarrow> (r, self\<lparr>rate_limiter := Some rl2\<rparr>, w3)))))"

section \<open>Vocabulary of the properties\<close>


text \<open>The events that happened between two worlds of one run.\<close>

definition since :: "world \<Rightarrow> world \<Rightarrow> event list" where
  "since w w' = drop (length (trace w)) (trace w')"

text \<open>
  \<open>inner\<close> events are those a \<open>call_api\<close> produces; \<open>low\<close> adds the brackets around it.
\<close>

fun inner :: "event \<Rightarrow> bool" where
  "inner (Sleep d) = True"
| "inner (Attempt n) = True"
| "inner Request = True"
| "inner (Says x) = True"
| "inner e = False"

fun low :: "event \<Rightarrow> bool" where
  "low Enter = True"
| "low Leave = True"
| "low e = inner e"

text \<open>
  A step of the run from \<open>w\<close> to \<open>w'\<close> that appends only events satisfying \<open>P\<close> and leaves
  the prompt module and the script of interrupts alone.
\<close>

definition adds :: "(event \<Rightarrow> bool) \<Rightarrow> world \<Rightarrow> world \<Rightarrow> bool" where
  "adds P w w' =
     (\<exists>es. trace w' = trace w @ es \<and> list_all P es \<and> get_prompt w' = get_prompt w
        \<and> interrupts w' = interrupts w)"

text \<open>The number of remote attempts (loop iterations of \<open>call_api\<close>) among some events.\<close>

fun is_attempt :: "event \<Rightarrow> bool" where
  "is_attempt (Attempt n) = True"
| "is_attempt e = False"

definition attempts :: "event list \<Rightarrow> nat" where
  "attempts es = length (filter is_attempt es)"

text \<open>The backoff sleeps: those that follow the console line of a retry.\<close>

fun backoffs :: "event list \<Rightarrow> real list" where
  "backoffs (Says (Retrying n) # Sleep d # es) = d # backoffs es"
| "backoffs (e # es) = backoffs es"
| "backoffs [] = []"

text \<open>
  What a scripted transport feeds one attempt that fails transiently, client by client:
  Gemini retries \<open>ServiceUnavailable\<close>, Kimi retries a \<open>RequestException\<close> of either post,
  DeepSeek retries whatever is raised.
\<close>

fun transient_chunk :: "api \<Rightarrow> outcome list \<Rightarrow> bool" where
  "transient_chunk (GeminiAPI m) [Fails e] = (cls e = ServiceUnavailable)"
| "transient_chunk KimiAPI [Fails e] = (cls e = RequestException)"
| "transient_chunk KimiAPI [Responds p, Fails e] = (cls e = RequestException)"
| "transient_chunk DeepSeekAPI [Fails e] = True"
| "transient_chunk a c = False"

text \<open>What it feeds an attempt that succeeds with text \<open>s\<close>.\<close>

fun success_chunk :: "api \<Rightarrow> string \<Rightarrow> outcome list \<Rightarrow> bool" where
  "success_chunk KimiAPI s [Responds p, Responds (Text s')] = (s' = s)"
| "success_chunk KimiAPI s c = False"
| "success_chunk a s [Responds (Text s')] = (s' = s)"
| "success_chunk a s c = False"

text \<open>The attempt loop of the client at hand.\<close>

definition loop_of :: "api \<Rightarrow> nat \<Rightarrow> nat \<Rightarrow> world \<Rightarrow> string option \<times> world" where
  "loop_of a max_retries attempt w =
     (case a of
        GeminiAPI m \<Rightarrow> gemini_loop max_retries attempt w
      | KimiAPI \<Rightarrow> kimi_loop max_retries attempt w
      | DeepSeekAPI \<Rightarrow> deepseek_loop max_retries attempt w)"

text \<open>One attempt that fails transiently leads from \<open>w\<close> into the next iteration at \<open>w1\<close>.\<close>

definition retried :: "nat \<Rightarrow> world \<Rightarrow> world \<Rightarrow> outcome list \<Rightarrow> bool" where
  "retried attempt w w1 rest =
     (\<exists>pre. trace w1 = trace w @ pre \<and> list_all inner pre \<and> attempts pre = 1
        \<and> (\<forall>es. backoffs (pre @ es) = (10 + 5 ^ attempt) # backoffs es)
        \<and> remote w1 = rest \<and> get_prompt w1 = get_prompt w)"

text \<open>
  The events of a job that lie outside every \<open>call_api\<close>; the flag says whether the
  list starts inside one.
\<close>

fun outside_calls :: "bool \<Rightarrow> event list \<Rightarrow> event list" where
  "outside_calls inside [] = []"
| "outside_calls inside (Enter # es) = outside_calls True es"
| "outside_calls inside (Leave # es) = outside_calls False es"
| "outside_calls inside (e # es) = (if inside then outside_calls inside es else e # outside_calls inside es)"

fun is_sleep :: "event \<Rightarrow> bool" where
  "is_sleep (Sleep d) = True"
| "is_sleep e = False"

fun is_enter :: "event \<Rightarrow> bool" where
  "is_enter Enter = True"
| "is_enter e = False"

text \<open>The number of \<open>call_api\<close> invocations among some events.\<close>

definition calls :: "event list \<Rightarrow> nat" where
  "calls es = length (filter is_enter es)"

definition no_sleep :: "event list \<Rightarrow> bool" where
  "no_sleep es = (filter is_sleep es = [])"

text \<open>
  The consecutive-failure breaker in the spec's words, as a check of the events of a pass
  that starts with \<open>cf\<close> failures in a row: a success resets the count; the third failure
  in a row is followed at once by exactly one question; a yes resets the count, after a no
  nothing more happens; and no question is asked anywhere else.
\<close>

fun breaker_spec :: "nat \<Rightarrow> event list \<Rightarrow> bool" where
  "breaker_spec cf [] = True"
| "breaker_spec cf (Ends f ok # es) =
     (if ok then breaker_spec 0 es
      else if cf + 1 \<ge> 3
           then (case es of
                   AskContinue answer # es' \<Rightarrow> (if answer then breaker_spec 0 es' else es' = [])
                 | _ \<Rightarrow> False)
           else breaker_spec (cf + 1) es)"
| "breaker_spec cf (AskContinue answer # es) = False"
| "breaker_spec cf (e # es) = breaker_spec cf es"

text \<open>The files whose \<open>process_file\<close> ended in failure, in order.\<close>

fun failures :: "event list \<Rightarrow> string list" where
  "failures [] = []"
| "failures (Ends f ok # es) = (if ok then failures es else f # failures es)"
| "failures (e # es) = failures es"

text \<open>The events that make up the pacing of a pass, and the two questions.\<close>

fun is_pace :: "event \<Rightarrow> bool" where
  "is_pace (Waits f) = True"
| "is_pace (Starts f) = True"
| "is_pace e = False"

fun is_prompt :: "event \<Rightarrow> bool" where
  "is_prompt (AskContinue b) = True"
| "is_prompt (AskRetry c) = True"
| "is_prompt e = False"

text \<open>
  The pacing of a whole pass over a list of files: a wait ahead of every file but the
  first of the pass.
\<close>

fun timetable :: "bool \<Rightarrow> string list \<Rightarrow> event list" where
  "timetable first [] = []"
| "timetable first (f # rest) = (if first then [] else [Waits f]) @ Starts f # timetable False rest"

section \<open>Concrete inputs\<close>

text \<open>
  A world at second 1000 in which nothing is scripted: sleeps are exact, no file exists,
  every path can be written, nobody presses Ctrl-C, and the prompt module pastes its
  arguments together.
\<close>

definition calm :: world where
  "calm = \<lparr>clock = 1000, lag = [], trace = [], remote = [], files = Map.empty,
            writable = (\<lambda>p. True), interrupts = [], continue_answers = [],
            retry_answers = [], dialogs = [],
            get_prompt = (\<lambda>title text prompt_file. Inr (prompt_file @ title @ text)),
            format_to_markdown = (\<lambda>r. Inr r), path_stem = (\<lambda>p. p),
            path_join = (\<lambda>a b. a @ ''/'' @ b)\<rparr>"

text \<open>A limiter with an interval of half a second, last stamped at second 1000.\<close>

definition half_second :: RateLimiter where
  "half_second = \<lparr>config = \<lparr>wait_minutes = 1/120, show_progress = True\<rparr>,
                   last_call_time = 1000\<rparr>"

text \<open>
  Three scripted transports: two \<open>ServiceUnavailable\<close> and then an answer; three
  \<open>ServiceUnavailable\<close>; three rejections that no retry will cure.
\<close>

definition flaky :: world where
  "flaky = calm\<lparr>remote := [Fails (Error ServiceUnavailable ''503''),
                            Fails (Error ServiceUnavailable ''503''),
                            Responds (Text ''analysis'')]\<rparr>"

definition down :: world where
  "down = calm\<lparr>remote := [Fails (Error ServiceUnavailable ''503''),
                           Fails (Error ServiceUnavailable ''503''),
                           Fails (Error ServiceUnavailable ''503'')]\<rparr>"

definition rejecting :: world where
  "rejecting = calm\<lparr>remote := [Fails (Error OtherException ''content policy''),
                                Fails (Error OtherException ''content policy''),
                                Fails (Error OtherException ''content policy'')]\<rparr>"

text \<open>One readable file, and a service that is down nine times in a row.\<close>

definition dead :: world where
  "dead = calm\<lparr>files := [''a.txt'' \<mapsto> ''hello''],
                   remote := replicate 9 (Fails (Error ServiceUnavailable ''503''))\<rparr>"

text \<open>A limiter with no interval at all.\<close>

definition no_patience :: RateLimiter where
  "no_patience = \<lparr>config = \<lparr>wait_minutes = 0, show_progress = True\<rparr>, last_call_time = 0\<rparr>"

text \<open>Four files, none of which exists in \<open>calm\<close>.\<close>

definition four_files :: "string list" where
  "four_files = [''a.txt'', ''b.txt'', ''c.txt'', ''d.txt'']"

text \<open>An analyzer with the Kimi client and the half-second limiter.\<close>

definition kimi_batch :: ArticleAnalyzer where
  "kimi_batch = \<lparr>api = Some KimiAPI, rate_limiter = Some half_second\<rparr>"

text \<open>A user who answers "no" (retry after a longer wait) and confirms the dialog as it opens.\<close>

definition keeps_default :: world where
  "keeps_default = calm\<lparr>retry_answers := [Some False],
                          dialogs := [\<lparr>minutes_entry = Keep, progress_box = True\<rparr>]\<rparr>"

text \<open>A user who answers "no" and types 5 into the dialog.\<close>

definition types_five :: world where
  "types_five = calm\<lparr>retry_answers := [Some False],
                       dialogs := [\<lparr>minutes_entry = Typed 5, progress_box = True\<rparr>]\<rparr>"

text \<open>
  The batch of the spec's end-to-end property: five readable files; the transport answers
  the first and the fifth at once, the second and the fourth after one \<open>ServiceUnavailable\<close>,
  and rejects the third at every call, in the main pass and in the retry pass.
\<close>

definition five_jobs :: world where
  "five_jobs = calm\<lparr>
     files := [''j1'' \<mapsto> ''one'', ''j2'' \<mapsto> ''two'', ''j3'' \<mapsto> ''three'', ''j4'' \<mapsto> ''four'',
               ''j5'' \<mapsto> ''five''],
     remote := [Responds (Text ''r1''),
                Fails (Error ServiceUnavailable ''503''), Responds (Text ''r2''),
                Fails (Error OtherException ''blocked''), Fails (Error OtherException ''blocked''),
                Fails (Error OtherException ''blocked''),
                Fails (Error ServiceUnavailable ''503''), Responds (Text ''r4''),
                Responds (Text ''r5''),
                Fails (Error OtherException ''blocked''), Fails (Error OtherException ''blocked''),
                Fails (Error OtherException ''blocked'')],
     retry_answers := [Some True]\<rparr>"

definition gemini_batch :: ArticleAnalyzer where
  "gemini_batch = \<lparr>api = Some (GeminiAPI ''gemini-2.0-flash-exp''), rate_limiter = Some no_patience\<rparr>"

section \<open>Properties of the rate limiter\<close>












section \<open>Properties of the provider clients\<close>

lemma since_append: "trace w' = trace w @ es \<Longrightarrow> since w w' = es"
  by (simp add: since_def)

lemma adds_refl: "adds P w w"
  by (simp add: adds_def)

lemma adds_sleep: "adds P w0 w \<Longrightarrow> P (Sleep d) \<Longrightarrow> adds P w0 (sleep d w)"
  by (auto simp: adds_def sleep_def)

lemma adds_emit: "adds P w0 w \<Longrightarrow> P e \<Longrightarrow> adds P w0 (emit e w)"
  by (auto simp: adds_def emit_def)

lemma adds_request: "adds P w0 w \<Longrightarrow> P Request \<Longrightarrow> request w = (r, w') \<Longrightarrow> adds P w0 w'"
  by (auto simp: adds_def request_def emit_def split: list.splits)

lemma adds_mono: "adds P w w' \<Longrightarrow> (\<And>e. P e \<Longrightarrow> Q e) \<Longrightarrow> adds Q w w'"
  by (auto simp: adds_def list_all_iff)

lemma adds_trans: "adds P w0 w \<Longrightarrow> adds P w w' \<Longrightarrow> adds P w0 w'"
  by (auto simp: adds_def)

lemma adds_request_snd: "adds P w0 w \<Longrightarrow> P Request \<Longrightarrow> adds P w0 (snd (request w))"
  by (cases "request w") (auto intro: adds_request)

lemma gemini_loop_adds:
  "adds inner w0 w \<Longrightarrow> adds inner w0 (snd (gemini_loop max_retries attempt w))"
proof (induction max_retries attempt w rule: gemini_loop.induct)
  case (1 max_retries attempt w)
  let ?W = "emit (Attempt attempt) w"
  have IH: "\<And>e w'. attempt < max_retries \<Longrightarrow> fst (request ?W) = Fails e \<Longrightarrow> cls e = ServiceUnavailable
      \<Longrightarrow> adds inner w0 w' \<Longrightarrow> w' = sleep (10 + 5 ^ attempt) (emit (Says (Retrying attempt)) (snd (request ?W)))
      \<Longrightarrow> adds inner w0 (snd (gemini_loop max_retries (Suc attempt) w'))"
    using "1.IH" by (cases "request ?W") auto
  show ?case
    using "1.prems"
    by (subst gemini_loop.simps)
       (auto simp: Let_def split_beta split: outcome.splits payload.splits
             intro!: IH adds_sleep adds_emit adds_request_snd)
qed

lemma deepseek_loop_adds:
  "adds inner w0 w \<Longrightarrow> adds inner w0 (snd (deepseek_loop max_retries attempt w))"
proof (induction max_retries attempt w rule: deepseek_loop.induct)
  case (1 max_retries attempt w)
  let ?W = "emit (Attempt attempt) w"
  have IH: "\<And>e. attempt < max_retries \<Longrightarrow> fst (request ?W) = Fails e
      \<Longrightarrow> adds inner w0 (sleep (10 + 5 ^ attempt) (emit (Says (Retrying attempt)) (snd (request ?W))))
      \<Longrightarrow> adds inner w0 (snd (deepseek_loop max_retries (Suc attempt)
            (sleep (10 + 5 ^ attempt) (emit (Says (Retrying attempt)) (snd (request ?W))))))"
    and IH2: "attempt < max_retries \<Longrightarrow> fst (request ?W) = Responds Unreadable
      \<Longrightarrow> adds inner w0 (sleep (10 + 5 ^ attempt) (emit (Says (Retrying attempt)) (sleep 10 (snd (request ?W)))))
      \<Longrightarrow> adds inner w0 (snd (deepseek_loop max_retries (Suc attempt)
            (sleep (10 + 5 ^ attempt) (emit (Says (Retrying attempt)) (sleep 10 (snd (request ?W)))))))"
    using "1.IH" by (cases "request ?W"; auto)+
  show ?case
    using "1.prems"
    by (subst deepseek_loop.simps)
       (auto simp: Let_def split_beta split: outcome.splits payload.splits
             intro!: IH IH2 adds_sleep adds_emit adds_request_snd)
qed

lemma kimi_loop_adds:
  "adds inner w0 w \<Longrightarrow> adds inner w0 (snd (kimi_loop max_retries attempt w))"
proof (induction max_retries attempt w rule: kimi_loop.induct)
  case (1 max_retries attempt w)
  let ?W = "emit (Attempt attempt) w"
  let ?V = "sleep 10 (snd (request ?W))"
  have IH: "\<And>e. attempt < max_retries \<Longrightarrow> fst (request ?W) = Fails e \<Longrightarrow> cls e = RequestException
      \<Longrightarrow> adds inner w0 (sleep (10 + 5 ^ attempt) (emit (Says (Retrying attempt)) (snd (request ?W))))
      \<Longrightarrow> adds inner w0 (snd (kimi_loop max_retries (Suc attempt)
            (sleep (10 + 5 ^ attempt) (emit (Says (Retrying attempt)) (snd (request ?W))))))"
    and IH2: "\<And>p e. attempt < max_retries \<Longrightarrow> fst (request ?W) = Responds p
      \<Longrightarrow> fst (request ?V) = Fails e \<Longrightarrow> cls e = RequestException
      \<Longrightarrow> adds inner w0 (sleep (10 + 5 ^ attempt) (emit (Says (Retrying attempt)) (snd (request ?V))))
      \<Longrightarrow> adds inner w0 (snd (kimi_loop max_retries (Suc attempt)
            (sleep (10 + 5 ^ attempt) (emit (Says (Retrying attempt)) (snd (request ?V))))))"
    using "1.IH" by (cases "request ?W"; cases "request ?V"; auto)+
  show ?case
    using "1.prems"
    by (subst kimi_loop.simps)
       (auto simp: Let_def split_beta split: outcome.splits payload.splits
             intro!: IH IH2 adds_sleep adds_emit adds_request_snd)
qed

lemma call_api_adds: "adds inner w (snd (call_api a text prompt max_retries w))"
  by (cases a)
     (auto simp: call_api_def gemini_call_api_def kimi_call_api_def deepseek_call_api_def
        intro!: gemini_loop_adds kimi_loop_adds deepseek_loop_adds adds_sleep adds_refl)

lemma call_api_loop_of: "call_api a text prompt max_retries w = loop_of a max_retries 0 (sleep 15 w)"
  by (cases a)
     (simp_all add: call_api_def loop_of_def gemini_call_api_def kimi_call_api_def
        deepseek_call_api_def)

lemma attempts_append: "attempts (xs @ ys) = attempts xs + attempts ys"
  by (simp add: attempts_def)

lemma upt_step: "[i..<Suc (i + n)] = i # [Suc i..<Suc (i + n)]"
  by (rule upt_conv_Cons) simp

lemma loop_of_step:
  assumes "transient_chunk a c" and "remote w = c @ rest" and "attempt < max_retries"
  shows "\<exists>w1. loop_of a max_retries attempt w = loop_of a max_retries (Suc attempt) w1
           \<and> retried attempt w w1 rest"
proof (cases a)
  case (GeminiAPI m)
  from assms(1) obtain e where c: "c = [Fails e]" and e: "cls e = ServiceUnavailable"
    unfolding GeminiAPI by (auto elim: transient_chunk.elims)
  let ?w1 = "sleep (10 + 5 ^ attempt) (emit (Says (Retrying attempt))
               (snd (request (emit (Attempt attempt) w))))"
  have "gemini_loop max_retries attempt w = gemini_loop max_retries (Suc attempt) ?w1"
    using assms(2,3) c e by (subst gemini_loop.simps) (simp add: request_def emit_def)
  moreover have "retried attempt w ?w1 rest"
    unfolding retried_def
    by (rule exI [of _ "[Attempt attempt, Request, Says (Retrying attempt),
                          Sleep (10 + 5 ^ attempt)]"])
       (use assms(2) c in \<open>simp add: request_def emit_def sleep_def attempts_def\<close>)
  ultimately show ?thesis by (auto simp: loop_of_def GeminiAPI)
next
  case DeepSeekAPI
  from assms(1) obtain e where c: "c = [Fails e]"
    unfolding DeepSeekAPI by (auto elim: transient_chunk.elims)
  let ?w1 = "sleep (10 + 5 ^ attempt) (emit (Says (Retrying attempt))
               (snd (request (emit (Attempt attempt) w))))"
  have "deepseek_loop max_retries attempt w = deepseek_loop max_retries (Suc attempt) ?w1"
    using assms(2,3) c by (subst deepseek_loop.simps) (simp add: request_def emit_def)
  moreover have "retried attempt w ?w1 rest"
    unfolding retried_def
    by (rule exI [of _ "[Attempt attempt, Request, Says (Retrying attempt),
                          Sleep (10 + 5 ^ attempt)]"])
       (use assms(2) c in \<open>simp add: request_def emit_def sleep_def attempts_def\<close>)
  ultimately show ?thesis by (auto simp: loop_of_def DeepSeekAPI)
next
  case KimiAPI
  from assms(1) consider
      (first) e where "c = [Fails e]" "cls e = RequestException"
    | (second) p e where "c = [Responds p, Fails e]" "cls e = RequestException"
    unfolding KimiAPI by (auto elim: transient_chunk.elims)
  then show ?thesis
  proof cases
    case first
    let ?w1 = "sleep (10 + 5 ^ attempt) (emit (Says (Retrying attempt))
                 (snd (request (emit (Attempt attempt) w))))"
    have "kimi_loop max_retries attempt w = kimi_loop max_retries (Suc attempt) ?w1"
      using assms(2,3) first by (subst kimi_loop.simps) (simp add: request_def emit_def)
    moreover have "retried attempt w ?w1 rest"
      unfolding retried_def
      by (rule exI [of _ "[Attempt attempt, Request, Says (Retrying attempt),
                            Sleep (10 + 5 ^ attempt)]"])
         (use assms(2) first in \<open>simp add: request_def emit_def sleep_def attempts_def\<close>)
    ultimately show ?thesis by (auto simp: loop_of_def KimiAPI)
  next
    case second
    let ?w1 = "sleep (10 + 5 ^ attempt) (emit (Says (Retrying attempt))
                 (snd (request (sleep 10 (snd (request (emit (Attempt attempt) w)))))))"
    have "kimi_loop max_retries attempt w = kimi_loop max_retries (Suc attempt) ?w1"
      using assms(2,3) second
      by (subst kimi_loop.simps) (simp add: request_def emit_def sleep_def)
    moreover have "retried attempt w ?w1 rest"
      unfolding retried_def
      by (rule exI [of _ "[Attempt attempt, Request, Sleep 10, Request,
                            Says (Retrying attempt), Sleep (10 + 5 ^ attempt)]"])
         (use assms(2) second in \<open>simp add: request_def emit_def sleep_def attempts_def\<close>)
    ultimately show ?thesis by (auto simp: loop_of_def KimiAPI)
  qed
qed

text \<open>An attempt that succeeds ends the loop.\<close>

lemma loop_of_success:
  assumes "success_chunk a s c" and "remote w = c @ rest" and "attempt < max_retries"
  shows "\<exists>w' pre. loop_of a max_retries attempt w = (Some s, w') \<and> trace w' = trace w @ pre
           \<and> attempts pre = 1 \<and> backoffs pre = [] \<and> remote w' = rest"
proof (cases a)
  case (GeminiAPI m)
  from assms(1) have c: "c = [Responds (Text s)]"
    unfolding GeminiAPI by (auto elim: success_chunk.elims)
  show ?thesis
    unfolding loop_of_def GeminiAPI api.case
    by (subst gemini_loop.simps)
       (use assms(2,3) c in \<open>simp add: request_def emit_def sleep_def attempts_def\<close>)
next
  case DeepSeekAPI
  from assms(1) have c: "c = [Responds (Text s)]"
    unfolding DeepSeekAPI by (auto elim: success_chunk.elims)
  show ?thesis
    unfolding loop_of_def DeepSeekAPI api.case
    by (subst deepseek_loop.simps)
       (use assms(2,3) c in \<open>simp add: request_def emit_def sleep_def attempts_def\<close>)
next
  case KimiAPI
  from assms(1) obtain p where c: "c = [Responds p, Responds (Text s)]"
    unfolding KimiAPI by (auto elim: success_chunk.elims)
  show ?thesis
    unfolding loop_of_def KimiAPI api.case
    by (subst kimi_loop.simps)
       (use assms(2,3) c in \<open>simp add: request_def emit_def sleep_def attempts_def\<close>)
qed

lemma loop_of_done:
  "loop_of a max_retries max_retries w = (None, emit (Says AllFailed) w)"
  by (cases a)
     (simp_all add: loop_of_def gemini_loop.simps [of max_retries max_retries]
        kimi_loop.simps [of max_retries max_retries]
        deepseek_loop.simps [of max_retries max_retries])

lemma loop_of_succeeds:
  assumes "list_all (transient_chunk a) cs" and "success_chunk a s c"
    and "remote w = concat cs @ c @ rest"
    and "attempt + length cs < max_retries"
  shows "\<exists>w' es. loop_of a max_retries attempt w = (Some s, w') \<and> trace w' = trace w @ es
          \<and> attempts es = length cs + 1
          \<and> backoffs es = map (\<lambda>i. 10 + 5 ^ i) [attempt..<attempt + length cs]
          \<and> remote w' = rest"
  using assms
proof (induction cs arbitrary: attempt w)
  case Nil
  then show ?case using loop_of_success [of a s c w rest attempt max_retries] by simp
next
  case (Cons c0 cs)
  have "transient_chunk a c0" and "remote w = c0 @ (concat cs @ c @ rest)"
    and "attempt < max_retries"
    using Cons.prems by simp_all
  from loop_of_step [OF this]
  obtain w1 pre where step: "loop_of a max_retries attempt w = loop_of a max_retries (Suc attempt) w1"
    and t1: "trace w1 = trace w @ pre" and a1: "attempts pre = 1"
    and b1: "\<And>es. backoffs (pre @ es) = (10 + 5 ^ attempt) # backoffs es"
    and r1: "remote w1 = concat cs @ c @ rest"
    unfolding retried_def by blast
  from Cons.prems have "list_all (transient_chunk a) cs"
    and "Suc attempt + length cs < max_retries" by simp_all
  from Cons.IH [OF this(1) Cons.prems(2) r1 this(2)]
  obtain w' es where loop: "loop_of a max_retries (Suc attempt) w1 = (Some s, w')"
    and tr: "trace w' = trace w1 @ es" and att: "attempts es = length cs + 1"
    and bo: "backoffs es = map (\<lambda>i. 10 + 5 ^ i) [Suc attempt..<Suc attempt + length cs]"
    and rm: "remote w' = rest"
    by blast
  show ?case
  proof (intro exI conjI)
    show "loop_of a max_retries attempt w = (Some s, w')" using step loop by simp
    show "trace w' = trace w @ (pre @ es)" using tr t1 by simp
    show "attempts (pre @ es) = length (c0 # cs) + 1" using att a1 by (simp add: attempts_append)
    show "backoffs (pre @ es) = map (\<lambda>i. 10 + 5 ^ i) [attempt..<attempt + length (c0 # cs)]"
      using bo b1 by (simp add: upt_step del: upt_Suc)
    show "remote w' = rest" by (rule rm)
  qed
qed

lemma loop_of_exhausts:
  assumes "list_all (transient_chunk a) cs"
    and "remote w = concat cs @ rest"
    and "attempt + length cs = max_retries"
  shows "\<exists>w' es. loop_of a max_retries attempt w = (None, w') \<and> trace w' = trace w @ es
          \<and> list_all inner es \<and> attempts es = length cs
          \<and> backoffs es = map (\<lambda>i. 10 + 5 ^ i) [attempt..<max_retries]
          \<and> remote w' = rest \<and> get_prompt w' = get_prompt w"
  using assms
proof (induction cs arbitrary: attempt w)
  case Nil
  then show ?case by (simp add: loop_of_done emit_def attempts_def)
next
  case (Cons c0 cs)
  have "transient_chunk a c0" and "remote w = c0 @ (concat cs @ rest)"
    and "attempt < max_retries"
    using Cons.prems by simp_all
  from loop_of_step [OF this]
  obtain w1 pre where step: "loop_of a max_retries attempt w = loop_of a max_retries (Suc attempt) w1"
    and t1: "trace w1 = trace w @ pre" and a1: "attempts pre = 1" and i1: "list_all inner pre"
    and b1: "\<And>es. backoffs (pre @ es) = (10 + 5 ^ attempt) # backoffs es"
    and r1: "remote w1 = concat cs @ rest" and g1: "get_prompt w1 = get_prompt w"
    unfolding retried_def by blast
  from Cons.prems have "list_all (transient_chunk a) cs"
    and "Suc attempt + length cs = max_retries" by simp_all
  from Cons.IH [OF this(1) r1 this(2)]
  obtain w' es where loop: "loop_of a max_retries (Suc attempt) w1 = (None, w')"
    and tr: "trace w' = trace w1 @ es" and att: "attempts es = length cs"
    and inn: "list_all inner es"
    and bo: "backoffs es = map (\<lambda>i. 10 + 5 ^ i) [Suc attempt..<max_retries]"
    and rm: "remote w' = rest" and gp: "get_prompt w' = get_prompt w1"
    by blast
  have m: "max_retries = Suc (attempt + length cs)" using Cons.prems(3) by simp
  show ?case
  proof (intro exI conjI)
    show "loop_of a max_retries attempt w = (None, w')" using step loop by simp
    show "trace w' = trace w @ (pre @ es)" using tr t1 by simp
    show "list_all inner (pre @ es)" using i1 inn by simp
    show "attempts (pre @ es) = length (c0 # cs)" using att a1 by (simp add: attempts_append)
    show "backoffs (pre @ es) = map (\<lambda>i. 10 + 5 ^ i) [attempt..<max_retries]"
      using bo b1 unfolding m by (simp add: upt_step del: upt_Suc)
    show "remote w' = rest" by (rule rm)
    show "get_prompt w' = get_prompt w" using gp g1 by simp
  qed
qed

text \<open>
  Claim C3. For each of the three clients and every \<open>k\<close>: when the transport fails
  transiently \<open>k < max_retries\<close> times (the chunks \<open>cs\<close>) and then succeeds with \<open>s\<close>,
  \<open>call_api\<close> returns \<open>s\<close> after exactly \<open>k + 1\<close> attempts; when it fails transiently
  \<open>max_retries\<close> times, \<open>call_api\<close> returns \<open>None\<close> after exactly \<open>max_retries\<close> attempts.
  Either way the failed attempt number \<open>i\<close> is followed by a sleep of \<open>10 + 5 ^ i\<close> seconds.
\<close>

theorem call_api_retries:
  assumes "list_all (transient_chunk a) cs"
  shows "(success_chunk a s c \<and> remote w = concat cs @ c @ rest \<and> length cs < max_retries \<longrightarrow>
            fst (call_api a text prompt max_retries w) = Some s
          \<and> attempts (since w (snd (call_api a text prompt max_retries w))) = length cs + 1
          \<and> backoffs (since w (snd (call_api a text prompt max_retries w)))
              = map (\<lambda>i. 10 + 5 ^ i) [0..<length cs])
       \<and> (remote w = concat cs @ rest \<and> length cs = max_retries \<longrightarrow>
            fst (call_api a text prompt max_retries w) = None
          \<and> attempts (since w (snd (call_api a text prompt max_retries w))) = max_retries
          \<and> backoffs (since w (snd (call_api a text prompt max_retries w)))
              = map (\<lambda>i. 10 + 5 ^ i) [0..<max_retries])"
proof (intro conjI impI)
  assume h: "success_chunk a s c \<and> remote w = concat cs @ c @ rest \<and> length cs < max_retries"
  then have "remote (sleep 15 w) = concat cs @ c @ rest" and "0 + length cs < max_retries"
    by (simp_all add: sleep_def)
  from loop_of_succeeds [OF assms _ this] h
  obtain w' es where loop: "loop_of a max_retries 0 (sleep 15 w) = (Some s, w')"
    and tr: "trace w' = trace (sleep 15 w) @ es" and att: "attempts es = length cs + 1"
    and bo: "backoffs es = map (\<lambda>i. 10 + 5 ^ i) [0..<0 + length cs]"
    by blast
  have call: "call_api a text prompt max_retries w = (Some s, w')"
    using loop by (simp add: call_api_loop_of)
  have sn: "since w w' = Sleep 15 # es"
    using tr by (intro since_append) (simp add: sleep_def)
  show "fst (call_api a text prompt max_retries w) = Some s" by (simp add: call)
  show "attempts (since w (snd (call_api a text prompt max_retries w))) = length cs + 1"
    using att by (simp add: call sn attempts_def)
  show "backoffs (since w (snd (call_api a text prompt max_retries w)))
          = map (\<lambda>i. 10 + 5 ^ i) [0..<length cs]"
    using bo by (simp add: call sn)
next
  assume h: "remote w = concat cs @ rest \<and> length cs = max_retries"
  then have "remote (sleep 15 w) = concat cs @ rest" and "0 + length cs = max_retries"
    by (simp_all add: sleep_def)
  from loop_of_exhausts [OF assms this]
  obtain w' es where loop: "loop_of a max_retries 0 (sleep 15 w) = (None, w')"
    and tr: "trace w' = trace (sleep 15 w) @ es" and att: "attempts es = length cs"
    and bo: "backoffs es = map (\<lambda>i. 10 + 5 ^ i) [0..<max_retries]"
    by blast
  have call: "call_api a text prompt max_retries w = (None, w')"
    using loop by (simp add: call_api_loop_of)
  have sn: "since w w' = Sleep 15 # es"
    using tr by (intro since_append) (simp add: sleep_def)
  show "fst (call_api a text prompt max_retries w) = None" by (simp add: call)
  show "attempts (since w (snd (call_api a text prompt max_retries w))) = max_retries"
    using att h by (simp add: call sn attempts_def)
  show "backoffs (since w (snd (call_api a text prompt max_retries w)))
          = map (\<lambda>i. 10 + 5 ^ i) [0..<max_retries]"
    using bo by (simp add: call sn)
qed

text \<open>
  The Gemini client with three tries: two failures and an answer give the answer after
  three attempts and sleeps of 11 and 15 seconds; three failures give \<open>None\<close> after three
  attempts and sleeps of 11, 15 and 35 seconds.
\<close>

theorem call_api_retries_witness:
  "fst (call_api (GeminiAPI ''gemini-2.0-flash-exp'') ''text'' ''prompt'' 3 flaky) = Some ''analysis''
   \<and> attempts (since flaky (snd (call_api (GeminiAPI ''gemini-2.0-flash-exp'') ''text'' ''prompt'' 3 flaky))) = 3
   \<and> backoffs (since flaky (snd (call_api (GeminiAPI ''gemini-2.0-flash-exp'') ''text'' ''prompt'' 3 flaky))) = [11, 15]
   \<and> fst (call_api (GeminiAPI ''gemini-2.0-flash-exp'') ''text'' ''prompt'' 3 down) = None
   \<and> attempts (since down (snd (call_api (GeminiAPI ''gemini-2.0-flash-exp'') ''text'' ''prompt'' 3 down))) = 3
   \<and> backoffs (since down (snd (call_api (GeminiAPI ''gemini-2.0-flash-exp'') ''text'' ''prompt'' 3 down))) = [11, 15, 35]"
proof -
  let ?g = "GeminiAPI ''gemini-2.0-flash-exp''"
  let ?f = "[Fails (Error ServiceUnavailable ''503'')]"
  have two: "list_all (transient_chunk ?g) [?f, ?f]" by simp
  have three: "list_all (transient_chunk ?g) [?f, ?f, ?f]" by simp
  have u: "[0..<2] = [0, 1]" "[0..<3] = [0, 1, 2]" by (simp_all add: upt_rec)
  from call_api_retries [OF two, of "''analysis''" "[Responds (Text ''analysis'')]" flaky "[]" 3
      "''text''" "''prompt''"]
    call_api_retries [OF three, of "''analysis''" "[]" down "[]" 3 "''text''" "''prompt''"]
  show ?thesis by (simp add: flaky_def down_def calm_def u)
qed

text \<open>
  Claim C2, as the code has it. In the Gemini and the Kimi client an exception of the first
  request that the client does not retry (anything but \<open>ServiceUnavailable\<close> for Gemini,
  anything but a \<open>RequestException\<close> for Kimi) ends \<open>call_api\<close> after exactly one attempt and
  with no backoff. The value returned is \<open>None\<close>, as it is when the retries are used up;
  what differs is the console line (\<open>OtherError\<close>, not \<open>AllFailed\<close>).
\<close>

theorem terminal_failure_aborts:
  assumes "remote w = Fails e # rest" and "0 < max_retries"
    and "a = GeminiAPI m \<and> cls e \<noteq> ServiceUnavailable \<or> a = KimiAPI \<and> cls e \<noteq> RequestException"
  shows "fst (call_api a text prompt max_retries w) = None
       \<and> since w (snd (call_api a text prompt max_retries w))
           = [Sleep 15, Attempt 0, Request, Says OtherError]
       \<and> attempts (since w (snd (call_api a text prompt max_retries w))) = 1"
proof -
  have "call_api a text prompt max_retries w
      = (None, emit (Says OtherError) (snd (request (emit (Attempt 0) (sleep 15 w)))))"
    using assms
    by (auto simp: call_api_def gemini_call_api_def kimi_call_api_def
          gemini_loop.simps [of max_retries 0] kimi_loop.simps [of max_retries 0]
          request_def emit_def sleep_def)
  then show ?thesis
    using assms(1) by (simp add: since_def request_def emit_def sleep_def attempts_def)
qed

theorem terminal_failure_aborts_witness:
  "fst (call_api KimiAPI ''text'' ''prompt'' 3 rejecting) = None
   \<and> since rejecting (snd (call_api KimiAPI ''text'' ''prompt'' 3 rejecting))
       = [Sleep 15, Attempt 0, Request, Says OtherError]
   \<and> attempts (since rejecting (snd (call_api KimiAPI ''text'' ''prompt'' 3 rejecting))) = 1"
proof -
  let ?e = "Error OtherException ''content policy''"
  have h1: "remote rejecting = Fails ?e # [Fails ?e, Fails ?e]"
    by (simp add: rejecting_def calm_def)
  have h2: "(0::nat) < 3" by simp
  have h3: "KimiAPI = GeminiAPI [] \<and> cls ?e \<noteq> ServiceUnavailable
      \<or> KimiAPI = KimiAPI \<and> cls ?e \<noteq> RequestException" by simp
  from terminal_failure_aborts [OF h1 h2 h3] show ?thesis .
qed

text \<open>
  Against the claim as it is worded: the DeepSeek client meets three rejections with three
  attempts, and the Gemini client returns the same value for a rejection as for three
  transient failures.
\<close>

theorem terminal_failure_counterexample:
  "attempts (since rejecting (snd (call_api DeepSeekAPI ''text'' ''prompt'' 3 rejecting))) = 3
   \<and> fst (call_api (GeminiAPI ''gemini-2.0-flash-exp'') ''text'' ''prompt'' 3 rejecting)
       = fst (call_api (GeminiAPI ''gemini-2.0-flash-exp'') ''text'' ''prompt'' 3 down)"
  by (simp add: call_api_def deepseek_call_api_def gemini_call_api_def deepseek_loop.simps
        gemini_loop.simps request_def emit_def sleep_def overshoot_def since_def attempts_def
        rejecting_def down_def calm_def)

section \<open>Properties of one job\<close>

lemma outside_inner: "list_all inner pre \<Longrightarrow> outside_calls True (pre @ es) = outside_calls True es"
  by (induction pre) (auto elim: inner.elims)

lemma psf_loop_quiet:
  assumes "get_prompt w title content prompt_file = Inr formatted_text"
  shows "\<exists>es. trace (snd (psf_loop a content title prompt_file retry_count w)) = trace w @ es
           \<and> outside_calls False es = []
           \<and> get_prompt (snd (psf_loop a content title prompt_file retry_count w)) = get_prompt w"
  using assms
proof (induction "3 - retry_count" arbitrary: retry_count w)
  case 0
  then show ?case by (subst (1 2) psf_loop.simps) simp
next
  case (Suc n)
  let ?c = "call_api a content formatted_text 3 (emit Enter w)"
  let ?w2 = "emit Leave (snd ?c)"
  from call_api_adds [of "emit Enter w" a content formatted_text 3]
  obtain pre where pre: "trace (snd ?c) = trace w @ Enter # pre" "list_all inner pre"
    and gp: "get_prompt (snd ?c) = get_prompt w"
    by (auto simp: adds_def emit_def)
  have t2: "trace ?w2 = trace w @ (Enter # pre @ [Leave])" and g2: "get_prompt ?w2 = get_prompt w"
    using pre gp by (simp_all add: emit_def)
  have o2: "\<And>es. outside_calls False ((Enter # pre @ [Leave]) @ es) = outside_calls False es"
    using pre(2) by (simp add: outside_inner)
  have rc: "retry_count < 3" using Suc.hyps(2) by simp
  show ?case
  proof (cases "formatted_text = []")
    case True
    then show ?thesis using Suc.prems rc by (subst (1 2) psf_loop.simps) simp
  next
    case False
    show ?thesis
    proof (cases "fst ?c = None \<or> fst ?c = Some []")
      case stop: False
      then obtain r where r: "fst ?c = Some r" "r \<noteq> []" by (cases "fst ?c") auto
      have "psf_loop a content title prompt_file retry_count w = (Some (title, r), ?w2)"
        using False rc Suc.prems r by (subst psf_loop.simps) (simp add: split_beta Let_def)
      then show ?thesis using t2 g2 o2 [of "[]"] by auto
    next
      case again: True
      have eq: "psf_loop a content title prompt_file retry_count w
          = psf_loop a content title prompt_file (Suc retry_count) ?w2"
        using False rc Suc.prems again by (subst psf_loop.simps) (auto simp: split_beta Let_def)
      have "n = 3 - Suc retry_count" using Suc.hyps(2) by simp
      moreover have "get_prompt ?w2 title content prompt_file = Inr formatted_text"
        using Suc.prems g2 by simp
      ultimately obtain es where
        "trace (snd (psf_loop a content title prompt_file (Suc retry_count) ?w2)) = trace ?w2 @ es"
        "outside_calls False es = []"
        "get_prompt (snd (psf_loop a content title prompt_file (Suc retry_count) ?w2)) = get_prompt ?w2"
        using Suc.hyps(1) by blast
      then show ?thesis unfolding eq using t2 g2 o2 [of es]
        by (intro exI [of _ "(Enter # pre @ [Leave]) @ es"]) simp
    qed
  qed
qed

lemma inner_not_enter: "inner e \<Longrightarrow> \<not> is_enter e"
  by (cases e) simp_all

lemma inner_no_enter: "list_all inner xs \<Longrightarrow> filter is_enter xs = []"
  by (induction xs) (auto simp: inner_not_enter)

text \<open>One round of the loop of \<open>process_single_file\<close> with a transport that is down.\<close>

lemma psf_round:
  assumes "get_prompt w title content prompt_file = Inr formatted_text" and "formatted_text \<noteq> []"
    and "list_all (transient_chunk a) cs" and "length cs = 3" and "remote w = concat cs @ rest"
    and "retry_count < 3"
  shows "\<exists>w1 es. psf_loop a content title prompt_file retry_count w
              = psf_loop a content title prompt_file (Suc retry_count) w1
           \<and> trace w1 = trace w @ es \<and> attempts es = 3 \<and> calls es = 1
           \<and> remote w1 = rest \<and> get_prompt w1 = get_prompt w"
proof -
  let ?c = "call_api a content formatted_text 3 (emit Enter w)"
  have "remote (sleep 15 (emit Enter w)) = concat cs @ rest" and "0 + length cs = 3"
    using assms(4,5) by (simp_all add: sleep_def emit_def)
  from loop_of_exhausts [OF assms(3) this]
  obtain w' es where loop: "loop_of a 3 0 (sleep 15 (emit Enter w)) = (None, w')"
    and tr: "trace w' = trace (sleep 15 (emit Enter w)) @ es"
    and inn: "list_all inner es" and att: "attempts es = length cs"
    and rm: "remote w' = rest" and gp: "get_prompt w' = get_prompt (sleep 15 (emit Enter w))"
    by blast
  have c: "?c = (None, w')" using loop by (simp add: call_api_loop_of)
  let ?w1 = "emit Leave w'"
  have eq: "psf_loop a content title prompt_file retry_count w
      = psf_loop a content title prompt_file (Suc retry_count) ?w1"
    using assms(1,2,6) c by (subst psf_loop.simps) simp
  show ?thesis
  proof (intro exI conjI)
    show "psf_loop a content title prompt_file retry_count w
      = psf_loop a content title prompt_file (Suc retry_count) ?w1" by (rule eq)
    show "trace ?w1 = trace w @ (Enter # Sleep 15 # es @ [Leave])"
      using tr by (simp add: emit_def sleep_def)
    show "attempts (Enter # Sleep 15 # es @ [Leave]) = 3"
      using att assms(4) by (simp add: attempts_def)
    show "calls (Enter # Sleep 15 # es @ [Leave]) = 1"
      using inner_no_enter [OF inn] by (simp add: calls_def)
    show "remote ?w1 = rest" using rm by (simp add: emit_def)
    show "get_prompt ?w1 = get_prompt w" using gp by (simp add: emit_def sleep_def)
  qed
qed


lemma psf_loop_over: "psf_loop a content title prompt_file 3 w = (None, w)"
  by (subst psf_loop.simps) simp

lemma calls_append: "calls (xs @ ys) = calls xs + calls ys"
  by (simp add: calls_def)

text \<open>
  Claim C10. \<open>process_single_file\<close> calls \<open>call_api\<close> in a loop of its own, up to three
  times. As long as the prompt module returns a prompt, it never sleeps between two calls:
  every sleep of the job lies inside a \<open>call_api\<close>. So a job whose transport fails
  transiently nine times over is given up only after three calls and \<open>3 * 3 = 9\<close>
  attempts.
\<close>

theorem job_attempts:
  assumes "files w file_path = Some content"
    and "get_prompt w (path_stem w file_path) content prompt_file = Inr formatted_text"
    and "formatted_text \<noteq> []"
  shows "no_sleep (outside_calls False (since w (snd (process_single_file a file_path prompt_file w))))
       \<and> (list_all (transient_chunk a) cs \<and> length cs = 9 \<and> remote w = concat cs @ rest \<longrightarrow>
            fst (process_single_file a file_path prompt_file w) = None
          \<and> calls (since w (snd (process_single_file a file_path prompt_file w))) = 3
          \<and> attempts (since w (snd (process_single_file a file_path prompt_file w))) = 9)"
proof (intro conjI impI)
  let ?title = "path_stem w file_path"
  have psf: "process_single_file a file_path prompt_file w
      = psf_loop a content ?title prompt_file 0 w"
    using assms(1) by (simp add: process_single_file_def)
  from psf_loop_quiet [OF assms(2), of a 0]
  obtain es where "trace (snd (psf_loop a content ?title prompt_file 0 w)) = trace w @ es"
    and "outside_calls False es = []" by blast
  then show "no_sleep (outside_calls False
      (since w (snd (process_single_file a file_path prompt_file w))))"
    by (simp add: psf since_append no_sleep_def)
next
  let ?title = "path_stem w file_path"
  assume h: "list_all (transient_chunk a) cs \<and> length cs = 9 \<and> remote w = concat cs @ rest"
  have psf: "process_single_file a file_path prompt_file w
      = psf_loop a content ?title prompt_file 0 w"
    using assms(1) by (simp add: process_single_file_def)
  let ?c1 = "take 3 cs" and ?c2 = "take 3 (drop 3 cs)" and ?c3 = "drop 6 cs"
  have "drop 3 cs = ?c2 @ ?c3" using append_take_drop_id [of 3 "drop 3 cs"] by simp
  moreover have "cs = ?c1 @ drop 3 cs" by simp
  ultimately have split: "cs = ?c1 @ ?c2 @ ?c3" by simp
  have tr: "list_all (transient_chunk a) ?c1" "list_all (transient_chunk a) ?c2"
    "list_all (transient_chunk a) ?c3"
    using h by (auto simp: list_all_iff dest: in_set_takeD in_set_dropD)
  have len: "length ?c1 = 3" "length ?c2 = 3" "length ?c3 = 3" using h by simp_all
  have r0: "remote w = concat ?c1 @ (concat ?c2 @ concat ?c3 @ rest)"
    using h split by (metis append.assoc concat_append)
  from psf_round [OF assms(2,3) tr(1) len(1) r0, of 0]
  obtain w1 e1 where s1: "psf_loop a content ?title prompt_file 0 w
        = psf_loop a content ?title prompt_file (Suc 0) w1"
    and t1: "trace w1 = trace w @ e1" and a1: "attempts e1 = 3" and c1: "calls e1 = 1"
    and r1: "remote w1 = concat ?c2 @ (concat ?c3 @ rest)" and g1: "get_prompt w1 = get_prompt w"
    by auto
  have p1: "get_prompt w1 ?title content prompt_file = Inr formatted_text"
    using assms(2) g1 by simp
  from psf_round [OF p1 assms(3) tr(2) len(2) r1, of "Suc 0"]
  obtain w2 e2 where s2: "psf_loop a content ?title prompt_file (Suc 0) w1
        = psf_loop a content ?title prompt_file (Suc (Suc 0)) w2"
    and t2: "trace w2 = trace w1 @ e2" and a2: "attempts e2 = 3" and c2: "calls e2 = 1"
    and r2: "remote w2 = concat ?c3 @ rest" and g2: "get_prompt w2 = get_prompt w1"
    by auto
  have p2: "get_prompt w2 ?title content prompt_file = Inr formatted_text"
    using p1 g2 by simp
  from psf_round [OF p2 assms(3) tr(3) len(3) r2, of "Suc (Suc 0)"]
  obtain w3 e3 where s3: "psf_loop a content ?title prompt_file (Suc (Suc 0)) w2
        = psf_loop a content ?title prompt_file (Suc (Suc (Suc 0))) w3"
    and t3: "trace w3 = trace w2 @ e3" and a3: "attempts e3 = 3" and c3: "calls e3 = 1"
    by auto
  have three: "Suc (Suc (Suc 0)) = 3" by simp
  have res: "process_single_file a file_path prompt_file w = (None, w3)"
    unfolding psf s1 s2 s3 three by (rule psf_loop_over)
  have sn: "since w w3 = e1 @ e2 @ e3"
    using t1 t2 t3 by (intro since_append) simp
  show "fst (process_single_file a file_path prompt_file w) = None" by (simp add: res)
  show "calls (since w (snd (process_single_file a file_path prompt_file w))) = 3"
    using c1 c2 c3 by (simp add: res sn calls_append)
  show "attempts (since w (snd (process_single_file a file_path prompt_file w))) = 9"
    using a1 a2 a3 by (simp add: res sn attempts_append)
qed

text \<open>The Gemini client and a readable file, with the service down nine times.\<close>

theorem job_attempts_witness:
  "no_sleep (outside_calls False
      (since dead (snd (process_single_file (GeminiAPI ''gemini-2.0-flash-exp'') ''a.txt'' ''p.txt'' dead))))
   \<and> fst (process_single_file (GeminiAPI ''gemini-2.0-flash-exp'') ''a.txt'' ''p.txt'' dead) = None
   \<and> calls (since dead (snd (process_single_file (GeminiAPI ''gemini-2.0-flash-exp'') ''a.txt'' ''p.txt'' dead))) = 3
   \<and> attempts (since dead (snd (process_single_file (GeminiAPI ''gemini-2.0-flash-exp'') ''a.txt'' ''p.txt'' dead))) = 9"
proof -
  let ?g = "GeminiAPI ''gemini-2.0-flash-exp''"
  let ?cs = "replicate 9 [Fails (Error ServiceUnavailable ''503'')]"
  have h1: "files dead ''a.txt'' = Some ''hello''" by (simp add: dead_def calm_def)
  have h2: "get_prompt dead (path_stem dead ''a.txt'') ''hello'' ''p.txt'' = Inr ''p.txta.txthello''"
    by (simp add: dead_def calm_def)
  have h3: "''p.txta.txthello'' \<noteq> []" by simp
  have h4: "list_all (transient_chunk ?g) ?cs \<and> length ?cs = 9 \<and> remote dead = concat ?cs @ []"
    by (simp add: dead_def calm_def numeral_eq_Suc)
  from job_attempts [OF h1 h2 h3, of ?g ?cs "[]"] h4 show ?thesis by blast
qed

section \<open>Properties of the batch orchestrator\<close>

lemma inner_low: "inner e \<Longrightarrow> low e"
  by (cases e) simp_all

lemma adds_low: "adds inner w w' \<Longrightarrow> adds low w w'"
  by (erule adds_mono) (rule inner_low)

lemma progress_loop_adds:
  "adds inner w0 w \<Longrightarrow> adds inner w0 (progress_loop remaining w)"
proof (induction remaining w rule: progress_loop.induct)
  case (1 remaining w)
  then show ?case
    by (subst progress_loop.simps) (simp add: adds_sleep)
qed

lemma wait_adds: "adds inner w (snd (wait rl w))"
  by (auto simp: wait_def Let_def intro!: progress_loop_adds adds_sleep adds_refl)

lemma psf_loop_adds:
  "adds low w0 w \<Longrightarrow> adds low w0 (snd (psf_loop a content title prompt_file retry_count w))"
proof (induction "3 - retry_count" arbitrary: retry_count w)
  case 0
  then show ?case by (subst psf_loop.simps) simp
next
  case (Suc n)
  have rc: "retry_count < 3" and n: "n = 3 - Suc retry_count" using Suc.hyps(2) by simp_all
  let ?c = "\<lambda>ft. call_api a content ft 3 (emit Enter w)"
  have c: "\<And>ft. adds low w0 (emit Leave (snd (?c ft)))"
  proof -
    fix ft
    have "adds low w0 (emit Enter w)" using Suc.prems by (simp add: adds_emit)
    moreover have "adds low (emit Enter w) (snd (?c ft))" by (rule adds_low) (rule call_api_adds)
    ultimately have "adds low w0 (snd (?c ft))" by (rule adds_trans)
    then show "adds low w0 (emit Leave (snd (?c ft)))" by (simp add: adds_emit)
  qed
  have s: "\<And>d. adds low w0 (sleep d w)" using Suc.prems by (simp add: adds_sleep)
  show ?case
    using rc Suc.prems c s Suc.hyps(1) [OF n]
    by (subst psf_loop.simps)
       (auto simp: Let_def split_beta split: sum.splits option.splits)
qed

lemma process_single_file_adds: "adds low w (snd (process_single_file a file_path prompt_file w))"
  by (auto simp: process_single_file_def adds_refl split: option.splits intro!: psf_loop_adds)

lemma adds_files: "adds P w w' \<Longrightarrow> adds P w (w'\<lparr>files := fs\<rparr>)"
  by (simp add: adds_def)

lemma process_file_adds: "adds low w (snd (process_file a file_path prompt_file w))"
  using process_single_file_adds [of w a file_path prompt_file]
  by (auto simp: process_file_def adds_files split: prod.splits option.splits sum.splits)


lemma breaker_low: "list_all low es \<Longrightarrow> breaker_spec cf (es @ r) = breaker_spec cf r"
proof (induction es)
  case Nil
  then show ?case by simp
next
  case (Cons e es)
  then show ?case by (cases e) simp_all
qed

lemma failures_low: "list_all low es \<Longrightarrow> failures (es @ r) = failures r"
proof (induction es)
  case Nil
  then show ?case by simp
next
  case (Cons e es)
  then show ?case by (cases e) simp_all
qed

lemma pace_low: "list_all low es \<Longrightarrow> filter is_pace es = []"
proof (induction es)
  case Nil
  then show ?case by simp
next
  case (Cons e es)
  then show ?case by (cases e) simp_all
qed

lemma prompt_low: "list_all low es \<Longrightarrow> filter is_prompt es = []"
proof (induction es)
  case Nil
  then show ?case by simp
next
  case (Cons e es)
  then show ?case by (cases e) simp_all
qed

lemma interruptible_wait_cases:
  assumes "interruptible_wait f rl w = (r, rl1, w1)"
  shows "(r = Raises KeyboardInterrupt \<and> rl1 = rl \<and> trace w1 = trace w @ [Waits f, Interrupted])
       \<or> (r = Returns () \<and> config rl1 = config rl
            \<and> (\<exists>es. trace w1 = trace w @ Waits f # es \<and> list_all low es))"
proof (cases "\<exists>rest. interrupts w = True # rest")
  case True
  then show ?thesis using assms by (auto simp: interruptible_wait_def Let_def emit_def)
next
  case False
  let ?w0 = "emit (Waits f) (w\<lparr>interrupts := tl (interrupts w)\<rparr>)"
  have eq: "interruptible_wait f rl w = (Returns (), fst (wait rl ?w0), snd (wait rl ?w0))"
    using False
    by (auto simp: interruptible_wait_def Let_def split_beta split: list.splits bool.splits)
  from adds_low [OF wait_adds [of ?w0 rl]]
  obtain es where "trace (snd (wait rl ?w0)) = trace ?w0 @ es" "list_all low es"
    by (auto simp: adds_def)
  moreover have "config (fst (wait rl ?w0)) = config rl" by (simp add: wait_def Let_def)
  ultimately show ?thesis using assms eq by (auto simp: emit_def)
qed

lemma head_cases:
  assumes "(if i > 0 then interruptible_wait f rl w else (Returns (), rl, w)) = (r, rl1, w1)"
  shows "(r = Raises KeyboardInterrupt \<and> 0 < i \<and> rl1 = rl
            \<and> trace w1 = trace w @ [Waits f, Interrupted])
       \<or> (r = Returns () \<and> config rl1 = config rl
            \<and> (\<exists>es. trace w1 = trace w @ (if i > 0 then [Waits f] else []) @ es \<and> list_all low es))"
proof (cases "i > 0")
  case True
  then show ?thesis using assms interruptible_wait_cases [of f rl w r rl1 w1] by auto
next
  case False
  then show ?thesis using assms by auto
qed

lemma process_file_trace:
  assumes "process_file a f pf (emit (Starts f) w1) = ((ok, saved), w2)"
  shows "\<exists>es. trace w2 = trace w1 @ Starts f # es \<and> list_all low es"
  using process_file_adds [of "emit (Starts f) w1" a f pf] assms
  by (auto simp: adds_def emit_def)

lemma askyesno_trace:
  "askyesno w = (answer, w4) \<Longrightarrow> trace w4 = trace w @ [AskContinue answer]"
  by (auto simp: askyesno_def Let_def emit_def)

lemma main_loop_run:
  "main_loop a pf i jobs rl failed cf w = (rl', failed', w') \<Longrightarrow>
     \<exists>es. trace w' = trace w @ es \<and> breaker_spec cf es \<and> failed' = failed @ failures es
        \<and> prefix (filter is_pace es) (timetable (i = 0) jobs)"
proof (induction jobs arbitrary: i rl failed cf w)
  case Nil
  then show ?case by simp
next
  case (Cons f rest)
  obtain r rl1 w1 where W:
    "(if i > 0 then interruptible_wait f rl w else (Returns (), rl, w)) = (r, rl1, w1)"
    by (metis prod_cases3)
  from head_cases [OF W] show ?case
  proof (elim disjE conjE exE)
    assume r: "r = Raises KeyboardInterrupt" and i: "0 < i"
      and t: "trace w1 = trace w @ [Waits f, Interrupted]"
    have "main_loop a pf i (f # rest) rl failed cf w = (rl1, failed, w1)"
      using W r by simp
    with Cons.prems have "w' = w1" "failed' = failed" by simp_all
    then show ?thesis using t i by (intro exI [of _ "[Waits f, Interrupted]"]) simp
  next
    fix es0
    assume r: "r = Returns ()"
      and t1: "trace w1 = trace w @ (if i > 0 then [Waits f] else []) @ es0"
      and l0: "list_all low es0"
    obtain ok saved w2 where P: "process_file a f pf (emit (Starts f) w1) = ((ok, saved), w2)"
      by (metis prod.collapse)
    from process_file_trace [OF P] obtain es1
      where t2: "trace w2 = trace w1 @ Starts f # es1" and l1: "list_all low es1" by blast
    let ?w3 = "emit (Ends f ok) w2"
    let ?pre = "(if i > 0 then [Waits f] else []) @ es0 @ Starts f # es1"
    have t3: "trace ?w3 = trace w @ ?pre @ [Ends f ok]"
      using t1 t2 by (simp add: emit_def)
    have bp: "\<And>c x. breaker_spec c (?pre @ x) = breaker_spec c x"
      using l0 l1 by (simp add: breaker_low)
    have fp: "\<And>x. failures (?pre @ x) = failures x"
      using l0 l1 by (simp add: failures_low)
    have pp: "\<And>x. filter is_pace (?pre @ x) = (if i > 0 then [Waits f] else []) @ Starts f # filter is_pace x"
      using l0 l1 by (simp add: pace_low)
    have tt: "timetable (i = 0) (f # rest)
        = (if i > 0 then [Waits f] else []) @ Starts f # timetable False rest"
      by simp
    show ?thesis
    proof (cases ok)
      case True
      have "main_loop a pf (i + 1) rest (rl1\<lparr>last_call_time := clock ?w3\<rparr>) failed 0 ?w3
          = (rl', failed', w')"
        using Cons.prems W r P True by (simp add: Let_def)
      from Cons.IH [OF this] obtain es where
        t: "trace w' = trace ?w3 @ es" and b: "breaker_spec 0 es"
        and fl: "failed' = failed @ failures es"
        and p: "prefix (filter is_pace es) (timetable False rest)"
        by auto
      let ?es = "?pre @ Ends f ok # es"
      have "trace w' = trace w @ ?es" using t t3 by simp
      moreover have "breaker_spec cf ?es" unfolding bp using b True by simp
      moreover have "failed' = failed @ failures ?es" unfolding fp using fl True by simp
      moreover have "prefix (filter is_pace ?es) (timetable (i = 0) (f # rest))"
        unfolding pp tt using p by simp
      ultimately show ?thesis by blast
    next
      case False
      show ?thesis
      proof (cases "cf + 1 \<ge> 3")
        case low_count: False
        have "main_loop a pf (i + 1) rest rl1 (failed @ [f]) (cf + 1) ?w3 = (rl', failed', w')"
          using Cons.prems W r P False low_count by (simp add: Let_def)
        from Cons.IH [OF this] obtain es where
          t: "trace w' = trace ?w3 @ es" and b: "breaker_spec (cf + 1) es"
          and fl: "failed' = (failed @ [f]) @ failures es"
          and p: "prefix (filter is_pace es) (timetable False rest)"
          by auto
        let ?es = "?pre @ Ends f ok # es"
        have "trace w' = trace w @ ?es" using t t3 by simp
        moreover have "breaker_spec cf ?es" unfolding bp using b False low_count by simp
        moreover have "failed' = failed @ failures ?es" unfolding fp using fl False by simp
        moreover have "prefix (filter is_pace ?es) (timetable (i = 0) (f # rest))"
          unfolding pp tt using p by simp
        ultimately show ?thesis by blast
      next
        case tripped: True
        obtain answer w4 where A: "askyesno ?w3 = (answer, w4)" by (metis prod.collapse)
        have t4: "trace w4 = trace w @ ?pre @ [Ends f ok, AskContinue answer]"
          using askyesno_trace [OF A] t3 by simp
        show ?thesis
        proof (cases answer)
          case no: False
          have "(rl', failed', w') = (rl1, failed @ [f], w4)"
            using Cons.prems W r P False tripped A no by (simp add: Let_def)
          then have e: "w' = w4" "failed' = failed @ [f]" by simp_all
          let ?es = "?pre @ [Ends f ok, AskContinue answer]"
          have "trace w' = trace w @ ?es" using t4 e by simp
          moreover have "breaker_spec cf ?es" unfolding bp using False tripped no by simp
          moreover have "failed' = failed @ failures ?es" unfolding fp using e False by simp
          moreover have "prefix (filter is_pace ?es) (timetable (i = 0) (f # rest))"
            unfolding pp tt by simp
          ultimately show ?thesis by blast
        next
          case yes: True
          have "main_loop a pf (i + 1) rest rl1 (failed @ [f]) 0 w4 = (rl', failed', w')"
            using Cons.prems W r P False tripped A yes by (simp add: Let_def)
          from Cons.IH [OF this] obtain es where
            t: "trace w' = trace w4 @ es" and b: "breaker_spec 0 es"
            and fl: "failed' = (failed @ [f]) @ failures es"
            and p: "prefix (filter is_pace es) (timetable False rest)"
            by auto
          let ?es = "?pre @ Ends f ok # AskContinue answer # es"
          have "trace w' = trace w @ ?es" using t t4 by simp
          moreover have "breaker_spec cf ?es" unfolding bp using b False tripped yes by simp
          moreover have "failed' = failed @ failures ?es" unfolding fp using fl False by simp
          moreover have "prefix (filter is_pace ?es) (timetable (i = 0) (f # rest))"
            unfolding pp tt using p by simp
          ultimately show ?thesis by blast
        qed
      qed
    qed
  qed
qed

lemma process_file_interrupts:
  "process_file a f pf w = (res, w2) \<Longrightarrow> interrupts w2 = interrupts w"
  using process_file_adds [of w a f pf] by (auto simp: adds_def)

lemma head_interrupts:
  assumes "(if i > 0 then interruptible_wait f rl w else (Returns (), rl, w)) = (r, rl1, w1)"
    and "True \<notin> set (interrupts w)"
  shows "r = Returns () \<and> True \<notin> set (interrupts w1)"
proof (cases "i > 0")
  case False
  then show ?thesis using assms by auto
next
  case True
  let ?w0 = "emit (Waits f) (w\<lparr>interrupts := tl (interrupts w)\<rparr>)"
  have nt: "True \<notin> set (tl (interrupts w))" using assms(2) by (cases "interrupts w") auto
  have eq: "interruptible_wait f rl w = (Returns (), fst (wait rl ?w0), snd (wait rl ?w0))"
    using assms(2)
    by (cases "interrupts w")
       (auto simp: interruptible_wait_def Let_def split_beta split: list.splits bool.splits)
  have "interrupts (snd (wait rl ?w0)) = tl (interrupts w)"
    using wait_adds [of ?w0 rl] by (auto simp: adds_def emit_def)
  then show ?thesis using assms(1) True eq nt by auto
qed

lemma retry_loop_run:
  "retry_loop a pf i jobs rl w = (r, rl', w') \<Longrightarrow>
     \<exists>es. trace w' = trace w @ es \<and> filter is_prompt es = []
        \<and> prefix (filter is_pace es) (timetable (i = 0) jobs)
        \<and> (r = Returns () \<longrightarrow> filter is_pace es = timetable (i = 0) jobs)
        \<and> (True \<notin> set (interrupts w) \<longrightarrow> r = Returns ())
        \<and> config rl' = config rl"
proof (induction jobs arbitrary: i rl w)
  case Nil
  then show ?case by auto
next
  case (Cons f rest)
  obtain r0 rl1 w1 where W:
    "(if i > 0 then interruptible_wait f rl w else (Returns (), rl, w)) = (r0, rl1, w1)"
    by (metis prod_cases3)
  from head_cases [OF W] show ?case
  proof (elim disjE conjE exE)
    assume r: "r0 = Raises KeyboardInterrupt" and i: "0 < i" and rl1: "rl1 = rl"
      and t: "trace w1 = trace w @ [Waits f, Interrupted]"
    have "retry_loop a pf i (f # rest) rl w = (Raises KeyboardInterrupt, rl1, w1)"
      using W r by simp
    with Cons.prems have e: "w' = w1" "r = Raises KeyboardInterrupt" "rl' = rl1" by simp_all
    have "True \<in> set (interrupts w)" using head_interrupts [OF W] r by auto
    then show ?thesis using t i e rl1 by (intro exI [of _ "[Waits f, Interrupted]"]) simp
  next
    fix es0
    assume r: "r0 = Returns ()" and c1: "config rl1 = config rl"
      and t1: "trace w1 = trace w @ (if i > 0 then [Waits f] else []) @ es0"
      and l0: "list_all low es0"
    obtain ok saved w2 where P: "process_file a f pf (emit (Starts f) w1) = ((ok, saved), w2)"
      by (metis prod.collapse)
    from process_file_trace [OF P] obtain es1
      where t2: "trace w2 = trace w1 @ Starts f # es1" and l1: "list_all low es1" by blast
    let ?w3 = "emit (Ends f ok) w2"
    let ?pre = "(if i > 0 then [Waits f] else []) @ es0 @ Starts f # es1"
    have t3: "trace ?w3 = trace w @ ?pre @ [Ends f ok]"
      using t1 t2 by (simp add: emit_def)
    have pp: "\<And>x. filter is_pace (?pre @ x) = (if i > 0 then [Waits f] else []) @ Starts f # filter is_pace x"
      using l0 l1 by (simp add: pace_low)
    have qp: "\<And>x. filter is_prompt (?pre @ x) = filter is_prompt x"
      using l0 l1 by (simp add: prompt_low)
    have tt: "timetable (i = 0) (f # rest)
        = (if i > 0 then [Waits f] else []) @ Starts f # timetable False rest"
      by simp
    have i3: "True \<notin> set (interrupts w) \<Longrightarrow> True \<notin> set (interrupts ?w3)"
      using head_interrupts [OF W] process_file_interrupts [OF P] by (simp add: emit_def)
    have "retry_loop a pf (i + 1) rest rl1 ?w3 = (r, rl', w')"
      using Cons.prems W r P by simp
    from Cons.IH [OF this] obtain es where
      t: "trace w' = trace ?w3 @ es" and q: "filter is_prompt es = []"
      and p: "prefix (filter is_pace es) (timetable False rest)"
      and full: "r = Returns () \<longrightarrow> filter is_pace es = timetable False rest"
      and ret: "True \<notin> set (interrupts ?w3) \<longrightarrow> r = Returns ()"
      and c: "config rl' = config rl1"
      by auto
    let ?es = "?pre @ Ends f ok # es"
    have "trace w' = trace w @ ?es" using t t3 by simp
    moreover have "filter is_prompt ?es = []" unfolding qp using q by simp
    moreover have "prefix (filter is_pace ?es) (timetable (i = 0) (f # rest))"
      unfolding pp tt using p by simp
    moreover have "r = Returns () \<longrightarrow> filter is_pace ?es = timetable (i = 0) (f # rest)"
      unfolding pp tt using full by simp
    moreover have "True \<notin> set (interrupts w) \<longrightarrow> r = Returns ()" using ret i3 by blast
    moreover have "config rl' = config rl" using c c1 by simp
    ultimately show ?thesis by blast
  qed
qed

text \<open>
  Claim C4. Whatever a pass of \<open>process_files\<close> meets, its events obey the breaker:
  once three files have failed in a row, exactly one question is put before anything else
  happens; after a yes the count starts again at 0, after a no the pass is over; any
  success puts the count back to 0. The failed list grows by exactly the files that were
  processed and failed, so what a halt leaves unattempted is not on it.
\<close>

theorem breaker_after_three_failures:
  assumes "main_loop a prompt_file i file_paths rl failed_tasks consecutive_failures w
             = (rl', failed_tasks', w')"
  shows "breaker_spec consecutive_failures (since w w')
       \<and> failed_tasks' = failed_tasks @ failures (since w w')"
proof -
  from main_loop_run [OF assms] obtain es where "trace w' = trace w @ es"
    and "breaker_spec consecutive_failures es" and "failed_tasks' = failed_tasks @ failures es"
    by blast
  then show ?thesis by (simp add: since_append)
qed

text \<open>
  Four unreadable files and a user who says no: one question after the third failure,
  three files on the failed list, the fourth never started.
\<close>

theorem breaker_after_three_failures_witness:
  "main_loop KimiAPI ''p.txt'' 0 [''a.txt'', ''b.txt'', ''c.txt'', ''d.txt''] no_patience [] 0 calm
     = (no_patience\<lparr>last_call_time := 1000\<rparr>, [''a.txt'', ''b.txt'', ''c.txt''],
        calm\<lparr>trace := [Starts ''a.txt'', Ends ''a.txt'' False,
                         Waits ''b.txt'', Starts ''b.txt'', Ends ''b.txt'' False,
                         Waits ''c.txt'', Starts ''c.txt'', Ends ''c.txt'' False,
                         AskContinue False]\<rparr>)
   \<and> breaker_spec 0 [Starts ''a.txt'', Ends ''a.txt'' False,
                      Waits ''b.txt'', Starts ''b.txt'', Ends ''b.txt'' False,
                      Waits ''c.txt'', Starts ''c.txt'', Ends ''c.txt'' False,
                      AskContinue False]
   \<and> [''a.txt'', ''b.txt'', ''c.txt''] = [] @ failures [Starts ''a.txt'', Ends ''a.txt'' False,
                      Waits ''b.txt'', Starts ''b.txt'', Ends ''b.txt'' False,
                      Waits ''c.txt'', Starts ''c.txt'', Ends ''c.txt'' False,
                      AskContinue False]"
proof -
  have run: "main_loop KimiAPI ''p.txt'' 0 [''a.txt'', ''b.txt'', ''c.txt'', ''d.txt''] no_patience [] 0 calm
     = (no_patience\<lparr>last_call_time := 1000\<rparr>, [''a.txt'', ''b.txt'', ''c.txt''],
        calm\<lparr>trace := [Starts ''a.txt'', Ends ''a.txt'' False,
                         Waits ''b.txt'', Starts ''b.txt'', Ends ''b.txt'' False,
                         Waits ''c.txt'', Starts ''c.txt'', Ends ''c.txt'' False,
                         AskContinue False]\<rparr>)"
    by (simp add: no_patience_def calm_def interruptible_wait_def wait_def process_file_def
          process_single_file_def askyesno_def emit_def Let_def)
  from breaker_after_three_failures [OF run] run show ?thesis
    by (simp add: since_def calm_def)
qed

lemma retry_failed_tasks_run:
  assumes "retry_failed_tasks a failed_tasks prompt_file rl w = (r, failed_tasks', rl', w')"
  shows "failed_tasks' = failed_tasks" and "retry_loop a prompt_file 0 failed_tasks rl w = (r, rl', w')"
  using assms by (auto simp: retry_failed_tasks_def split: prod.splits)

text \<open>
  Claim C5. A retry pass leaves the failed list as it was and asks nothing: there is no
  breaker in it. Unless the user interrupts a wait it returns, and when it returns it has
  gone through exactly the failed files in order, a wait ahead of each but the first and
  \<open>process_file\<close> on each.
\<close>

theorem retry_pass:
  assumes "retry_failed_tasks a failed_tasks prompt_file rl w = (r, failed_tasks', rl', w')"
  shows "failed_tasks' = failed_tasks
       \<and> filter is_prompt (since w w') = []
       \<and> (True \<notin> set (interrupts w) \<longrightarrow> r = Returns ())
       \<and> (r = Returns () \<longrightarrow> filter is_pace (since w w') = timetable True failed_tasks)"
proof -
  from retry_loop_run [OF retry_failed_tasks_run(2) [OF assms]]
  obtain es where "trace w' = trace w @ es" and "filter is_prompt es = []"
    and "r = Returns () \<longrightarrow> filter is_pace es = timetable True failed_tasks"
    and "True \<notin> set (interrupts w) \<longrightarrow> r = Returns ()"
    by auto
  then show ?thesis using retry_failed_tasks_run(1) [OF assms] by (simp add: since_append)
qed

text \<open>
  Four failures in a row in a retry pass: no question, all four files processed.
\<close>

theorem retry_pass_witness:
  "retry_failed_tasks KimiAPI four_files ''p.txt'' no_patience calm
     = (Returns (), four_files, no_patience\<lparr>last_call_time := 1000\<rparr>,
        calm\<lparr>trace := [Starts ''a.txt'', Ends ''a.txt'' False,
                         Waits ''b.txt'', Starts ''b.txt'', Ends ''b.txt'' False,
                         Waits ''c.txt'', Starts ''c.txt'', Ends ''c.txt'' False,
                         Waits ''d.txt'', Starts ''d.txt'', Ends ''d.txt'' False]\<rparr>)
   \<and> filter is_prompt (since calm (calm\<lparr>trace := [Starts ''a.txt'', Ends ''a.txt'' False,
                         Waits ''b.txt'', Starts ''b.txt'', Ends ''b.txt'' False,
                         Waits ''c.txt'', Starts ''c.txt'', Ends ''c.txt'' False,
                         Waits ''d.txt'', Starts ''d.txt'', Ends ''d.txt'' False]\<rparr>)) = []
   \<and> filter is_pace (since calm (calm\<lparr>trace := [Starts ''a.txt'', Ends ''a.txt'' False,
                         Waits ''b.txt'', Starts ''b.txt'', Ends ''b.txt'' False,
                         Waits ''c.txt'', Starts ''c.txt'', Ends ''c.txt'' False,
                         Waits ''d.txt'', Starts ''d.txt'', Ends ''d.txt'' False]\<rparr>))
       = timetable True four_files"
proof -
  have run: "retry_failed_tasks KimiAPI four_files ''p.txt'' no_patience calm
     = (Returns (), four_files, no_patience\<lparr>last_call_time := 1000\<rparr>,
        calm\<lparr>trace := [Starts ''a.txt'', Ends ''a.txt'' False,
                         Waits ''b.txt'', Starts ''b.txt'', Ends ''b.txt'' False,
                         Waits ''c.txt'', Starts ''c.txt'', Ends ''c.txt'' False,
                         Waits ''d.txt'', Starts ''d.txt'', Ends ''d.txt'' False]\<rparr>)"
    by (simp add: retry_failed_tasks_def four_files_def no_patience_def calm_def
          interruptible_wait_def wait_def process_file_def process_single_file_def emit_def
          Let_def)
  from retry_pass [OF run] run show ?thesis by simp
qed



text \<open>
  Claim C7, on the code. Ctrl-C during the wait ahead of the second file: in the main pass
  it is caught and the pass ends, with the second file neither processed nor put on the
  failed list; in the retry pass nothing catches it, and it leaves \<open>process_files\<close> as a
  \<open>KeyboardInterrupt\<close>.
\<close>

theorem interrupt_in_retry_pass:
  "process_files \<lparr>api = Some KimiAPI, rate_limiter = Some no_patience\<rparr> [''a.txt'', ''b.txt''] ''p.txt''
       (calm\<lparr>interrupts := [True]\<rparr>)
     = (Returns (), \<lparr>api = Some KimiAPI, rate_limiter = Some no_patience\<rparr>,
        calm\<lparr>trace := [Starts ''a.txt'', Ends ''a.txt'' False, Waits ''b.txt'', Interrupted,
                         AskRetry None]\<rparr>)
   \<and> process_files \<lparr>api = Some KimiAPI, rate_limiter = Some no_patience\<rparr> [''a.txt'', ''b.txt''] ''p.txt''
       (calm\<lparr>interrupts := [False, True], retry_answers := [Some True]\<rparr>)
     = (Raises KeyboardInterrupt,
        \<lparr>api = Some KimiAPI, rate_limiter = Some (no_patience\<lparr>last_call_time := 1000\<rparr>)\<rparr>,
        calm\<lparr>trace := [Starts ''a.txt'', Ends ''a.txt'' False,
                         Waits ''b.txt'', Starts ''b.txt'', Ends ''b.txt'' False,
                         AskRetry (Some True),
                         Starts ''a.txt'', Ends ''a.txt'' False, Waits ''b.txt'', Interrupted]\<rparr>)"
  by (simp add: process_files_def offer_retry_def retry_failed_tasks_def reset_timer_def
        askyesnocancel_def no_patience_def calm_def interruptible_wait_def wait_def
        process_file_def process_single_file_def askyesno_def emit_def Let_def)

text \<open>
  Claim C9, as the code has it. When files have failed and the user chooses the longer
  wait, \<open>process_files\<close> opens the interval dialog with twice the old \<open>wait_minutes\<close> as the
  default, and then runs the retry pass with what the dialog returns: the doubled interval
  when the user leaves the entry as it is, the number typed otherwise.
\<close>

theorem longer_wait_retry:
  assumes "failed_tasks \<noteq> []" and "retry_answers w = Some False # answers"
    and "dialogs w = d # ds" and "minutes_entry d \<noteq> Garbage"
  shows "\<exists>w2. since w w2 = [AskRetry (Some False), ConfigDialog (wait_minutes (config rl) * 2)]
          \<and> offer_retry a failed_tasks prompt_file rl w
              = (case retry_failed_tasks a failed_tasks prompt_file
                        (rl\<lparr>config := \<lparr>wait_minutes =
                                          (case minutes_entry d of
                                             Typed x \<Rightarrow> x
                                           | _ \<Rightarrow> wait_minutes (config rl) * 2),
                                        show_progress = progress_box d\<rparr>\<rparr>) w2 of
                   (r, failed_tasks', rl3, w3) \<Rightarrow> (r, rl3, w3))
          \<and> wait_minutes (config (fst (snd (offer_retry a failed_tasks prompt_file rl w))))
              = (case minutes_entry d of Typed x \<Rightarrow> x | _ \<Rightarrow> wait_minutes (config rl) * 2)"
proof -
  let ?new = "case minutes_entry d of Typed x \<Rightarrow> x | _ \<Rightarrow> wait_minutes (config rl) * 2"
  let ?rl2 = "rl\<lparr>config := \<lparr>wait_minutes = ?new, show_progress = progress_box d\<rparr>\<rparr>"
  let ?w1 = "emit (AskRetry (Some False)) (w\<lparr>retry_answers := answers\<rparr>)"
  let ?w2 = "emit (ConfigDialog (wait_minutes (config rl) * 2)) (?w1\<lparr>dialogs := ds\<rparr>)"
  have ask: "askyesnocancel w = (Some False, ?w1)"
    using assms(2) by (simp add: askyesnocancel_def Let_def)
  have dlg: "show_config_dialog (wait_minutes (config rl) * 2) ?w1
      = (Returns \<lparr>wait_minutes = ?new, show_progress = progress_box d\<rparr>, ?w2)"
    using assms(3,4) by (cases "minutes_entry d") (simp_all add: show_config_dialog_def emit_def Let_def)
  have upd: "update_config rl None True (Some (wait_minutes (config rl) * 2)) ?w1
      = (Returns ?rl2, ?w2)"
  proof (cases "wait_minutes (config rl) = 0")
    case True
    with dlg show ?thesis by (simp add: update_config_def Let_def)
  next
    case False
    with dlg show ?thesis by (simp add: update_config_def Let_def)
  qed
  have off: "offer_retry a failed_tasks prompt_file rl w
      = (case retry_failed_tasks a failed_tasks prompt_file ?rl2 ?w2 of
           (r, failed_tasks', rl3, w3) \<Rightarrow> (r, rl3, w3))"
    using assms(1) ask upd by (simp add: offer_retry_def)
  obtain r fs rl3 w3 where R: "retry_failed_tasks a failed_tasks prompt_file ?rl2 ?w2 = (r, fs, rl3, w3)"
    by (metis prod_cases4)
  from retry_loop_run [OF retry_failed_tasks_run(2) [OF R]]
  have "config rl3 = config ?rl2" by auto
  then have cfg: "wait_minutes (config (fst (snd (offer_retry a failed_tasks prompt_file rl w)))) = ?new"
    by (simp add: off R)
  have sn: "since w ?w2 = [AskRetry (Some False), ConfigDialog (wait_minutes (config rl) * 2)]"
    by (simp add: since_def emit_def)
  from sn off cfg show ?thesis by blast
qed

theorem longer_wait_retry_witness:
  "wait_minutes (config (fst (snd (offer_retry KimiAPI [''a.txt''] ''p.txt'' half_second keeps_default))))
     = wait_minutes (config half_second) * 2
   \<and> since keeps_default (snd (snd (offer_retry KimiAPI [''a.txt''] ''p.txt'' half_second keeps_default)))
     = [AskRetry (Some False), ConfigDialog (1/60), Starts ''a.txt'', Ends ''a.txt'' False]"
proof -
  let ?d = "\<lparr>minutes_entry = Keep, progress_box = True\<rparr>"
  have h1: "[''a.txt''] \<noteq> []" by simp
  have h2: "retry_answers keeps_default = Some False # []" by (simp add: keeps_default_def calm_def)
  have h3: "dialogs keeps_default = ?d # []" by (simp add: keeps_default_def calm_def)
  have h4: "minutes_entry ?d \<noteq> Garbage" by simp
  have run: "since keeps_default (snd (snd (offer_retry KimiAPI [''a.txt''] ''p.txt'' half_second keeps_default)))
     = [AskRetry (Some False), ConfigDialog (1/60), Starts ''a.txt'', Ends ''a.txt'' False]"
    by (simp add: offer_retry_def retry_failed_tasks_def update_config_def show_config_dialog_def
          askyesnocancel_def half_second_def keeps_default_def calm_def process_file_def
          process_single_file_def emit_def Let_def since_def)
  from longer_wait_retry [OF h1 h2 h3 h4, of half_second KimiAPI "''p.txt''"] run
  show ?thesis by auto
qed

text \<open>
  Against the claim as it is worded: the interval was half a second, the user types 5, and
  the retry pass runs with 5 minutes, not with one second.
\<close>

theorem longer_wait_retry_counterexample:
  "map_option (\<lambda>rl. wait_minutes (config rl))
      (rate_limiter (fst (snd (process_files kimi_batch [''a.txt''] ''p.txt'' types_five)))) = Some 5
   \<and> wait_minutes (config half_second) * 2 = 1/60"
  by (simp add: process_files_def offer_retry_def retry_failed_tasks_def update_config_def
        show_config_dialog_def reset_timer_def askyesnocancel_def kimi_batch_def half_second_def
        types_five_def calm_def process_file_def process_single_file_def emit_def Let_def)

section \<open>A whole batch\<close>

text \<open>
  The run of \<open>process_files\<close> on that batch: it returns; the third file alone fails, in
  the main pass and again in the retry pass; the other four results are on disk.
\<close>

lemma end_to_end_example:
  "fst (process_files gemini_batch [''j1'', ''j2'', ''j3'', ''j4'', ''j5''] ''p'' five_jobs) = Returns ()
   \<and> filter (\<lambda>e. \<not> low e)
        (trace (snd (snd (process_files gemini_batch [''j1'', ''j2'', ''j3'', ''j4'', ''j5''] ''p'' five_jobs))))
     = [Starts ''j1'', Ends ''j1'' True, Waits ''j2'', Starts ''j2'', Ends ''j2'' True,
        Waits ''j3'', Starts ''j3'', Ends ''j3'' False, Waits ''j4'', Starts ''j4'', Ends ''j4'' True,
        Waits ''j5'', Starts ''j5'', Ends ''j5'' True, AskRetry (Some True),
        Starts ''j3'', Ends ''j3'' False]
   \<and> map (files (snd (snd (process_files gemini_batch [''j1'', ''j2'', ''j3'', ''j4'', ''j5''] ''p'' five_jobs))))
        [''book_2/Gemini/j1_gemini2.0.md'', ''book_2/Gemini/j2_gemini2.0.md'',
         ''book_2/Gemini/j3_gemini2.0.md'', ''book_2/Gemini/j4_gemini2.0.md'',
         ''book_2/Gemini/j5_gemini2.0.md'']
     = [Some ''r1'', Some ''r2'', None, Some ''r4'', Some ''r5'']"
  by (simp add: process_files_def offer_retry_def retry_failed_tasks_def reset_timer_def
        askyesnocancel_def gemini_batch_def five_jobs_def no_patience_def calm_def
        interruptible_wait_def wait_def process_file_def process_single_file_def
        psf_loop.simps call_api_def gemini_call_api_def gemini_loop.simps request_def
        save_path_of_def askyesno_def emit_def sleep_def overshoot_def Let_def)

end
